theory Spec2Isabelle
  imports Main
begin

section \<open>PACS NM retriever: the retrieval orchestrator of \<^verbatim>\<open>pacs_nm_retriever.py\<close>\<close>

text \<open>
  The development follows the Python source function by function. Python strings are
  modelled as \<^typ>\<open>string\<close>, one \<^typ>\<open>char\<close> per code point below 256; the
  identifiers and tool output the program handles are DICOM text, whose default
  repertoire is ASCII. Python integers are \<^typ>\<open>int\<close>.
\<close>

subsection \<open>Python truthiness and \<^verbatim>\<open>or\<close> on optional strings\<close>

text \<open>
  A command-line option that was not given is \<^verbatim>\<open>None\<close>; \<^verbatim>\<open>None\<close> and the empty
  string are both false in a condition.
\<close>

definition truthy_str :: "string option \<Rightarrow> bool" where
  "truthy_str x = (case x of None \<Rightarrow> False | Some s \<Rightarrow> s \<noteq> [])"

text \<open>\<^verbatim>\<open>x or d\<close> for an optional string \<open>x\<close> and a string \<open>d\<close>.\<close>

definition str_or :: "string option \<Rightarrow> string \<Rightarrow> string" where
  "str_or x d = (case x of None \<Rightarrow> d | Some s \<Rightarrow> if s \<noteq> [] then s else d)"

subsection \<open>Date range: \<^verbatim>\<open>main\<close> (lines 697-709) and \<^verbatim>\<open>find_nm_studies\<close> (lines 195-201)\<close>

text \<open>The three date options of the command line, as \<^verbatim>\<open>argparse\<close> hands them over.\<close>

record date_args =
  study_date :: "string option"
  from_date :: "string option"
  to_date :: "string option"

text \<open>
  The clock and the calendar are the environment's: \<open>today\<close> is the day number of
  \<^verbatim>\<open>datetime.now()\<close> and \<open>strftime_Ymd\<close> renders a day number as \<^verbatim>\<open>%Y%m%d\<close>.
  Subtracting \<^verbatim>\<open>timedelta(days=30)\<close> keeps the time of day, so it is the day number
  minus 30.
\<close>

record clock =
  today :: int
  strftime_Ymd :: "int \<Rightarrow> string"

text \<open>The value \<^verbatim>\<open>main\<close> stores in \<^verbatim>\<open>retriever.study_date\<close>.\<close>

definition main_study_date :: "date_args \<Rightarrow> string option" where
  "main_study_date a =
     (if truthy_str (from_date a) \<or> truthy_str (to_date a)
      then Some (str_or (from_date a) ''19700101'' @ ''-'' @ str_or (to_date a) ''29991231'')
      else if truthy_str (study_date a) then study_date a
      else None)"

text \<open>
  The date \<^verbatim>\<open>find_nm_studies\<close> puts in the query: its argument when that is true,
  else the trailing 30-day window ending at the call's current day.
\<close>

definition query_study_date :: "clock \<Rightarrow> string option \<Rightarrow> string" where
  "query_study_date c sd =
     (if \<not> truthy_str sd
      then strftime_Ymd c (today c - 30) @ ''-'' @ strftime_Ymd c (today c)
      else the sd)"

text \<open>The two steps together: from the command line to the date of the study query.\<close>

definition resolveDateRange :: "clock \<Rightarrow> date_args \<Rightarrow> string" where
  "resolveDateRange c a = query_study_date c (main_study_date a)"

subsection \<open>Python string operations used by the program\<close>

text \<open>\<^verbatim>\<open>s.startswith(p)\<close>.\<close>

fun startswith :: "string \<Rightarrow> string \<Rightarrow> bool" where
  "startswith s [] = True"
| "startswith [] (p # ps) = False"
| "startswith (c # cs) (p # ps) = (c = p \<and> startswith cs ps)"

text \<open>\<^verbatim>\<open>sub in s\<close>: \<open>sub\<close> occurs in \<open>s\<close> as a contiguous run.\<close>

fun contains_str :: "string \<Rightarrow> string \<Rightarrow> bool" where
  "contains_str sub [] = (sub = [])"
| "contains_str sub (c # cs) = (startswith (c # cs) sub \<or> contains_str sub cs)"

text \<open>\<^verbatim>\<open>s.endswith(suf)\<close>.\<close>

definition endswith :: "string \<Rightarrow> string \<Rightarrow> bool" where
  "endswith s suf = startswith (rev s) (rev suf)"

text \<open>
  \<^verbatim>\<open>c.isalnum()\<close> on the code points below 256: the ASCII digits and letters, and the
  letters and numeric signs of the Latin-1 block.
\<close>

definition isalnum :: "char \<Rightarrow> bool" where
  "isalnum c =
     (let n = (of_char c :: nat)
      in (48 \<le> n \<and> n \<le> 57) \<or> (65 \<le> n \<and> n \<le> 90) \<or> (97 \<le> n \<and> n \<le> 122)
         \<or> n = 170 \<or> n = 178 \<or> n = 179 \<or> n = 181 \<or> n = 185 \<or> n = 186
         \<or> (188 \<le> n \<and> n \<le> 190) \<or> (192 \<le> n \<and> n \<le> 214)
         \<or> (216 \<le> n \<and> n \<le> 246) \<or> (248 \<le> n \<and> n \<le> 255))"

text \<open>
  Line 162: \<^verbatim>\<open>"".join(c for c in patient_id if c.isalnum() or c in ('-', '_'))\<close>.
\<close>

definition sanitize :: "string \<Rightarrow> string" where
  "sanitize s = filter (\<lambda>c. isalnum c \<or> c = CHR ''-'' \<or> c = CHR ''_'') s"

text \<open>\<^verbatim>\<open>c.isspace()\<close> on the code points below 256, and \<^verbatim>\<open>s.strip()\<close>.\<close>

definition isspace :: "char \<Rightarrow> bool" where
  "isspace c =
     (let n = (of_char c :: nat)
      in (9 \<le> n \<and> n \<le> 13) \<or> (28 \<le> n \<and> n \<le> 32) \<or> n = 133 \<or> n = 160)"

definition strip :: "string \<Rightarrow> string" where
  "strip s = rev (dropWhile isspace (rev (dropWhile isspace s)))"

text \<open>
  \<^verbatim>\<open>s.split(sep)\<close> for a one-character separator: the pieces between the separators,
  always at least one piece.
\<close>

fun split_on :: "char \<Rightarrow> string \<Rightarrow> string list" where
  "split_on sep [] = [Nil]"
| "split_on sep (c # cs) =
     (if c = sep then [] # split_on sep cs
      else (case split_on sep cs of
              [] \<Rightarrow> [c # Nil]
            | p # ps \<Rightarrow> (c # p) # ps))"

text \<open>
  \<^verbatim>\<open>int(s)\<close> on a string that \<^verbatim>\<open>strip()\<close> has already trimmed: an optional
  sign, then decimal digits in which single underscores may separate digits. \<open>None\<close> is
  the \<^verbatim>\<open>ValueError\<close>. The interpreter's configurable bound on the number of
  digits is left out.
\<close>

definition isdigit :: "char \<Rightarrow> bool" where
  "isdigit c = (48 \<le> (of_char c :: nat) \<and> (of_char c :: nat) \<le> 57)"

definition digit_val :: "char \<Rightarrow> int" where
  "digit_val c = int (of_char c) - 48"

text \<open>
  \<open>py_digits acc prev_digit s\<close> reads the rest of the digits; \<open>prev_digit\<close> tells
  whether the character just read was a digit, which an underscore and the end of the
  string both require.
\<close>

fun py_digits :: "int \<Rightarrow> bool \<Rightarrow> string \<Rightarrow> int option" where
  "py_digits acc prev_digit [] = (if prev_digit then Some acc else None)"
| "py_digits acc prev_digit (c # cs) =
     (if isdigit c then py_digits (10 * acc + digit_val c) True cs
      else if c = CHR ''_'' \<and> prev_digit then py_digits acc False cs
      else None)"

definition py_int :: "string \<Rightarrow> int option" where
  "py_int s =
     (case s of
        [] \<Rightarrow> None
      | c # cs \<Rightarrow>
          if c = CHR ''-'' then map_option uminus (py_digits 0 False cs)
          else if c = CHR ''+'' then py_digits 0 False cs
          else py_digits 0 False s)"

subsection \<open>DICOM values, records and responses\<close>

text \<open>
  The value of an attribute as the DICOM library hands it over: one text value, or a
  list of them when the element is multi-valued (\<^verbatim>\<open>CT\NM\<close> on the wire is the list
  of \<^verbatim>\<open>CT\<close> and \<^verbatim>\<open>NM\<close>). \<open>value_truthy\<close> is the value in a condition,
  \<open>py_str\<close> is \<^verbatim>\<open>str(value)\<close>; for a list that is the bracketed, comma-separated
  list of the quoted values (the values are code strings, which need no escaping).
\<close>

datatype dcm_value = Single string | Multi "string list"

fun value_truthy :: "dcm_value \<Rightarrow> bool" where
  "value_truthy (Single s) = (s \<noteq> [])"
| "value_truthy (Multi xs) = (xs \<noteq> [])"

definition quoted :: "string \<Rightarrow> string" where
  "quoted s = CHR 0x27 # s @ [CHR 0x27]"

fun join_comma :: "string list \<Rightarrow> string" where
  "join_comma [] = []"
| "join_comma [x] = x"
| "join_comma (x # y # ys) = x @ '', '' @ join_comma (y # ys)"

fun py_str :: "dcm_value \<Rightarrow> string" where
  "py_str (Single s) = s"
| "py_str (Multi xs) = ''['' @ join_comma (map quoted xs) @ '']''"

text \<open>
  A study-level and a series-level identifier of a find response, with the attributes the
  program reads. The UID is read as \<^verbatim>\<open>study.StudyInstanceUID\<close>, with no default: the
  records are taken to carry it. The other two are read with \<^verbatim>\<open>getattr\<close> and a
  default, so they may be absent.
\<close>

record study =
  StudyInstanceUID :: string
  ModalitiesInStudy :: "dcm_value option"
  NumberOfStudyRelatedInstances :: "int option"

record series =
  SeriesInstanceUID :: string

text \<open>
  What iterating the responses of a request yields: a pair of a status and an identifier,
  or an exception (\<open>Boom\<close>) that ends the iteration; an exception raised by sending the
  request is a \<open>Boom\<close> in first place. The status is \<open>None\<close> when the status dataset
  is empty, else its \<^verbatim>\<open>Status\<close> code; the identifier is \<open>None\<close> when it is
  \<^verbatim>\<open>None\<close> or empty.
\<close>

datatype 'a response = Response "nat option" "'a option" | Boom

text \<open>What \<^verbatim>\<open>ae.associate\<close> and the request on the association give.\<close>

datatype 'a association = AssociateRaises | NotEstablished | Established "'a response list"

text \<open>\<^verbatim>\<open>status and status.Status in (0xFF00, 0xFF01)\<close>.\<close>

definition is_pending :: "nat option \<Rightarrow> bool" where
  "is_pending st = (case st of None \<Rightarrow> False | Some c \<Rightarrow> c = 0xFF00 \<or> c = 0xFF01)"

text \<open>An optional integer in a condition (\<^verbatim>\<open>if limit and ...\<close>): \<^verbatim>\<open>None\<close> and 0 are false.\<close>

definition int_truthy :: "int option \<Rightarrow> bool" where
  "int_truthy x = (case x of None \<Rightarrow> False | Some n \<Rightarrow> n \<noteq> 0)"

text \<open>The slice \<^verbatim>\<open>xs[:n]\<close>; a negative \<open>n\<close> drops that many elements from the end.\<close>

definition py_take :: "int \<Rightarrow> 'a list \<Rightarrow> 'a list" where
  "py_take n xs = (if 0 \<le> n then take (nat n) xs else take (length xs - nat (- n)) xs)"

subsection \<open>The output directory\<close>

text \<open>
  The tree under the output root, given by its directories and its files. A path is a
  list of names; in the tree it is read from the output root. A file is known by the
  directory it lies in and its name, and carries a content.
\<close>

type_synonym path = "string list"
type_synonym fkey = "path \<times> string"

record fs =
  dirs :: "path list"
  files :: "(fkey \<times> nat) list"

definition file_keys :: "fs \<Rightarrow> fkey list" where
  "file_keys t = map fst (files t)"

text \<open>Writing a file creates it or replaces its content.\<close>

definition write_file :: "fkey \<Rightarrow> nat \<Rightarrow> fs \<Rightarrow> fs" where
  "write_file k c t =
     t\<lparr>files := (if k \<in> set (file_keys t)
                 then map (\<lambda>(k', c'). if k' = k then (k, c) else (k', c')) (files t)
                 else files t @ [(k, c)])\<rparr>"

subsection \<open>\<^verbatim>\<open>pathlib\<close> paths\<close>

text \<open>
  An absolute path is the list of its parts after the root \<^verbatim>\<open>/\<close>. The parts of
  a segment, as \<^verbatim>\<open>pathlib\<close> parses it: the segment is split at \<^verbatim>\<open>/\<close>, the
  empty pieces and the pieces \<^verbatim>\<open>.\<close> are dropped, \<^verbatim>\<open>..\<close> is kept.
\<close>

definition segment_parts :: "string \<Rightarrow> string list" where
  "segment_parts s = filter (\<lambda>p. p \<noteq> [] \<and> p \<noteq> ''.'') (split_on (CHR ''/'') s)"

text \<open>
  \<^verbatim>\<open>p / s\<close> on an absolute path: a segment that begins with \<^verbatim>\<open>/\<close> replaces the
  path, any other segment appends its parts. (A segment that begins with exactly two
  slashes keeps them as its root in \<^verbatim>\<open>pathlib\<close>; the operating system reads that
  root as \<^verbatim>\<open>/\<close>, and so does this model.)
\<close>

definition joinpath :: "string list \<Rightarrow> string \<Rightarrow> string list" where
  "joinpath ps s = (if startswith s ''/'' then segment_parts s else ps @ segment_parts s)"

text \<open>The path below the output root of an absolute path that lies in it or is it.\<close>

definition below :: "string list \<Rightarrow> string list \<Rightarrow> path option" where
  "below root p = (if take (length root) p = root then Some (drop (length root) p) else None)"

text \<open>
  \<^verbatim>\<open>mkdir(parents=True, exist_ok=True)\<close> on an absolute path, as the operating system
  resolves it: the parts are walked from the root, \<^verbatim>\<open>..\<close> steps to the parent of the
  directory reached, and a name that is missing in the tree is created as a directory
  on the way. The call raises (\<open>False\<close>) when a name on the way is a file, with the
  directories created until then left in place, and before anything is created when a
  part holds a null character. What lies outside the output root is not recorded:
  the walk passes through it, and the object says whether it raises there.
\<close>

fun mkdir_walk :: "string list \<Rightarrow> string list \<Rightarrow> string list \<Rightarrow> fs \<Rightarrow> bool \<times> fs" where
  "mkdir_walk root c [] t = (True, t)"
| "mkdir_walk root c (p # ps) t =
     (if p = ''..'' then mkdir_walk root (butlast c) ps t
      else (case below root (c @ [p]) of
              None \<Rightarrow> mkdir_walk root (c @ [p]) ps t
            | Some r \<Rightarrow>
                if r = [] then mkdir_walk root (c @ [p]) ps t
                else if (butlast r, last r) \<in> set (file_keys t) then (False, t)
                else mkdir_walk root (c @ [p]) ps
                       (if r \<in> set (dirs t) then t else t\<lparr>dirs := dirs t @ [r]\<rparr>)))"

definition mkdir_parents :: "string list \<Rightarrow> string list \<Rightarrow> fs \<Rightarrow> bool \<times> fs" where
  "mkdir_parents root p t =
     (if \<exists>n \<in> set p. CHR 0x00 \<in> set n then (False, t) else mkdir_walk root [] p t)"

text \<open>
  Opening an absolute path for writing, as \<^verbatim>\<open>save_as\<close> does. The directory of the
  file is resolved without creating anything: \<open>locate\<close> gives the directory the walk
  ends in, or nothing when a name on the way is not a directory of the tree. The call
  raises (\<open>None\<close>) then, and when the file's path is a directory or holds a null
  character; else the file is created or replaced. A file outside the output root
  leaves the tree as it is.
\<close>

fun locate :: "string list \<Rightarrow> string list \<Rightarrow> string list \<Rightarrow> fs \<Rightarrow> string list option" where
  "locate root c [] t = Some c"
| "locate root c (p # ps) t =
     (if p = ''..'' then locate root (butlast c) ps t
      else (case below root (c @ [p]) of
              None \<Rightarrow> locate root (c @ [p]) ps t
            | Some r \<Rightarrow>
                if r = [] \<or> r \<in> set (dirs t) then locate root (c @ [p]) ps t else None))"

definition open_write :: "string list \<Rightarrow> string list \<Rightarrow> nat \<Rightarrow> fs \<Rightarrow> fs option" where
  "open_write root p c t =
     (if p = [] \<or> (\<exists>n \<in> set p. CHR 0x00 \<in> set n) then None
      else (case locate root [] (butlast p) t of
              None \<Rightarrow> None
            | Some d \<Rightarrow>
                if last p = ''..'' then None
                else (case below root (d @ [last p]) of
                        None \<Rightarrow> Some t
                      | Some r \<Rightarrow>
                          if r = [] \<or> r \<in> set (dirs t) then None
                          else Some (write_file (butlast r, last r) c t))))"

subsection \<open>The trace of a run\<close>

text \<open>
  The log lines that report a count or the failure of a unit of work, by the line of the
  source that writes them. Progress lines that carry neither are left out.
\<close>

datatype log_line =
    FindAssocFailed              \<comment> \<open>line 234\<close>
  | FindError                    \<comment> \<open>line 237\<close>
  | SeriesFindError              \<comment> \<open>line 308\<close>
  | WouldStore int string        \<comment> \<open>line 167\<close>
  | StoredImage int              \<comment> \<open>line 179\<close>
  | FailedSave int               \<comment> \<open>line 181\<close>
  | RetrievingStudy string       \<comment> \<open>line 314\<close>
  | WouldRetrieve string         \<comment> \<open>line 317\<close>
  | NoSeriesFound string         \<comment> \<open>line 324\<close>
  | FoundSeries nat              \<comment> \<open>line 327\<close>
  | GetscuMissing                \<comment> \<open>lines 356-357\<close>
  | RenameFailed path string     \<comment> \<open>line 416\<close>
  | RenamedFiles nat             \<comment> \<open>line 419\<close>
  | RetrievedImages int          \<comment> \<open>line 423\<close>
  | GetscuCompleted              \<comment> \<open>line 425\<close>
  | GetscuFailed int             \<comment> \<open>line 429\<close>
  | GetscuTimeout                \<comment> \<open>line 435\<close>
  | GetscuError                  \<comment> \<open>line 438\<close>
  | ScpNone                      \<comment> \<open>line 460\<close>
  | ScpFailed                    \<comment> \<open>line 464\<close>
  | MoveStatusWarning nat        \<comment> \<open>line 496\<close>
  | MoveAssocFailed              \<comment> \<open>line 501\<close>
  | MoveError                    \<comment> \<open>line 504\<close>
  | NoNMStudiesFound             \<comment> \<open>line 525\<close>
  | EstimatedTotal int           \<comment> \<open>line 533\<close>
  | ProductionMode nat           \<comment> \<open>lines 536-541\<close>
  | ProcessingStudy nat nat string  \<comment> \<open>line 547\<close>
  | ReachedImageLimit int        \<comment> \<open>line 552\<close>
  | DryRunSummary int            \<comment> \<open>line 556\<close>
  | RetrievalComplete int        \<comment> \<open>line 558\<close>
  | TotalFiles nat               \<comment> \<open>line 564\<close>

text \<open>
  The calls the program makes on its collaborators, and its log lines, in the order of
  the run.
\<close>

datatype event =
    Associated                   \<comment> \<open>\<^verbatim>\<open>ae.associate\<close> gave an established association\<close>
  | Released                     \<comment> \<open>\<^verbatim>\<open>assoc.release()\<close>\<close>
  | CFindStudy string            \<comment> \<open>\<^verbatim>\<open>send_c_find\<close> at study level, with the date\<close>
  | CFindSeries string           \<comment> \<open>\<^verbatim>\<open>send_c_find\<close> at series level, with the study UID\<close>
  | CallGet string string        \<comment> \<open>\<^verbatim>\<open>_retrieve_with_get\<close> entered, for a study and a series\<close>
  | CallMove string string       \<comment> \<open>\<^verbatim>\<open>_retrieve_with_move\<close> entered\<close>
  | ToolRun string string        \<comment> \<open>\<^verbatim>\<open>subprocess.run\<close> of the external tool\<close>
  | ListenerStarted              \<comment> \<open>\<^verbatim>\<open>ae.start_server\<close> gave a server\<close>
  | ListenerStopped              \<comment> \<open>\<^verbatim>\<open>scp.shutdown()\<close>\<close>
  | CMove string string          \<comment> \<open>\<^verbatim>\<open>send_c_move\<close>\<close>
  | MkDirs "string list"         \<comment> \<open>\<^verbatim>\<open>save_dir.mkdir\<close> returned, for the absolute path\<close>
  | Saved "string list"          \<comment> \<open>\<^verbatim>\<open>ds.save_as\<close> returned, for the absolute path\<close>
  | Renamed path string          \<comment> \<open>\<^verbatim>\<open>old_path.rename\<close> returned, for a directory and the old name\<close>
  | Log log_line

subsection \<open>The retriever and its environment\<close>

text \<open>
  The fields of \<^verbatim>\<open>PACSNMRetriever\<close> that steer the run (the connection parameters
  do not), the counter \<^verbatim>\<open>self.image_count\<close>, and with them the tree under the
  output directory and the trace. \<open>output_dir\<close> is \<^verbatim>\<open>self.output_dir\<close>, the
  resolved absolute path of line 62, by its parts. \<open>self_study_date\<close> is the attribute \<^verbatim>\<open>study_date\<close> that
  \<^verbatim>\<open>main\<close> sets; \<open>None\<close> also stands for the attribute being absent, which
  \<^verbatim>\<open>getattr(self, 'study_date', '')\<close> turns into the empty string.
\<close>

record state =
  output_dir :: "string list"
  dry_run :: bool
  use_c_get :: bool
  self_study_date :: "string option"
  image_count :: int
  outdir :: fs
  trace :: "event list"

definition emit :: "event list \<Rightarrow> state \<Rightarrow> state" where
  "emit evs st = st\<lparr>trace := trace st @ evs\<rparr>"

text \<open>
  An object that arrives at the listener: the attributes \<^verbatim>\<open>handle_store\<close> reads
  (each may be absent), its content, and whether creating the directory or writing the
  file raises for a reason outside the tree (permissions, a full disk).
\<close>

record stored_object =
  PatientID :: "string option"
  obj_StudyInstanceUID :: "string option"
  obj_SeriesInstanceUID :: "string option"
  SOPInstanceUID :: "string option"
  payload :: nat

record delivery =
  obj :: stored_object
  mkdir_raises :: bool
  save_raises :: bool

text \<open>
  What \<^verbatim>\<open>subprocess.run\<close> of the external tool gives: a return code with the
  captured output, the timeout, or another exception. The tool stores files in the
  output root by itself; they come with the outcome, by name and content.
\<close>

datatype tool_outcome =
    Completed int string "(string \<times> nat) list"
  | TimeoutExpired "(string \<times> nat) list"
  | RunRaises

text \<open>What \<^verbatim>\<open>ae.start_server\<close> gives.\<close>

datatype scp_outcome = StartRaises | StartNone | Started

text \<open>
  The collaborators of a run: the clock, the archive's answers to the study query (by
  date) and to the series query (by study UID), the external tool, the renames that
  fail for a reason outside the tree, and for each series the listener, the move
  association with its statuses, and the objects that arrive while the move runs.
\<close>

record env =
  env_clock :: clock
  study_find :: "string \<Rightarrow> study association"
  series_find :: "string \<Rightarrow> series association"
  getscu_found :: bool
  getscu_run :: "string \<Rightarrow> string \<Rightarrow> tool_outcome"
  rename_fails :: "fkey \<Rightarrow> bool"
  scp_start :: "string \<Rightarrow> string \<Rightarrow> scp_outcome"
  move_assoc :: "string \<Rightarrow> string \<Rightarrow> unit association"
  deliveries :: "string \<Rightarrow> string \<Rightarrow> delivery list"

subsection \<open>\<^verbatim>\<open>handle_store\<close> (lines 150-184)\<close>

text \<open>\<^verbatim>\<open>getattr(ds, name, 'UNKNOWN')\<close>.\<close>

definition attr_or_unknown :: "string option \<Rightarrow> string" where
  "attr_or_unknown a = (case a of None \<Rightarrow> ''UNKNOWN'' | Some s \<Rightarrow> s)"

text \<open>
  Lines 156-162: the patient identifier goes through \<open>sanitize\<close>, the three UIDs are
  used as they are.
\<close>

definition patient_id_of :: "stored_object \<Rightarrow> string" where
  "patient_id_of ds = sanitize (attr_or_unknown (PatientID ds))"

definition study_uid_of :: "stored_object \<Rightarrow> string" where
  "study_uid_of ds = attr_or_unknown (obj_StudyInstanceUID ds)"

definition series_uid_of :: "stored_object \<Rightarrow> string" where
  "series_uid_of ds = attr_or_unknown (obj_SeriesInstanceUID ds)"

definition sop_uid_of :: "stored_object \<Rightarrow> string" where
  "sop_uid_of ds = attr_or_unknown (SOPInstanceUID ds)"

text \<open>
  Line 170, \<^verbatim>\<open>self.output_dir / patient_id / study_uid / series_uid\<close>, and lines
  174-175, \<^verbatim>\<open>save_dir / filename\<close>.
\<close>

definition save_dir :: "string list \<Rightarrow> stored_object \<Rightarrow> string list" where
  "save_dir root ds = joinpath (joinpath (joinpath root (patient_id_of ds)) (study_uid_of ds)) (series_uid_of ds)"

definition filename :: "stored_object \<Rightarrow> string" where
  "filename ds = sop_uid_of ds @ ''.dcm''"

definition filepath :: "string list \<Rightarrow> stored_object \<Rightarrow> string list" where
  "filepath root ds = joinpath (save_dir root ds) (filename ds)"

text \<open>The text of the dry-run line (line 167), which is formatted and not a path.\<close>

definition would_store_text :: "stored_object \<Rightarrow> string" where
  "would_store_text ds =
     patient_id_of ds @ ''/'' @ study_uid_of ds @ ''/'' @ series_uid_of ds @ ''/'' @ sop_uid_of ds @ ''.dcm''"

text \<open>
  The callback returns a status, or an exception leaves it (\<open>None\<close>): \<^verbatim>\<open>mkdir\<close> is
  outside the \<^verbatim>\<open>try\<close>. The counter is incremented before the dry-run test and
  before any write.
\<close>

definition handle_store :: "state \<Rightarrow> delivery \<Rightarrow> nat option \<times> state" where
  "handle_store st x =
     (let ds = obj x;
          st1 = st\<lparr>image_count := image_count st + 1\<rparr>
      in if dry_run st1
         then (Some 0x0000, emit [Log (WouldStore (image_count st1) (would_store_text ds))] st1)
         else if mkdir_raises x then (None, st1)
         else (case mkdir_parents (output_dir st1) (save_dir (output_dir st1) ds) (outdir st1) of
                 (False, t) \<Rightarrow> (None, st1\<lparr>outdir := t\<rparr>)
               | (True, t) \<Rightarrow>
                   (let st2 = emit [MkDirs (save_dir (output_dir st1) ds)] (st1\<lparr>outdir := t\<rparr>)
                    in case (if save_raises x then None
                             else open_write (output_dir st1) (filepath (output_dir st1) ds) (payload ds) t) of
                         None \<Rightarrow> (Some 0xC000, emit [Log (FailedSave (image_count st2))] st2)
                       | Some t' \<Rightarrow>
                           (Some 0x0000,
                            emit [Saved (filepath (output_dir st1) ds), Log (StoredImage (image_count st2))]
                              (st2\<lparr>outdir := t'\<rparr>)))))"

text \<open>The listener hands every arriving object to the callback, one after the other.\<close>

fun store_all :: "delivery list \<Rightarrow> state \<Rightarrow> state" where
  "store_all [] st = st"
| "store_all (x # xs) st = store_all xs (snd (handle_store st x))"

subsection \<open>\<^verbatim>\<open>find_nm_studies\<close> (lines 186-270)\<close>

text \<open>
  Lines 224-229: the pending responses that carry an identifier, in the order of
  arrival; \<open>None\<close> when the iteration raises.
\<close>

fun collect_studies :: "study response list \<Rightarrow> study list \<Rightarrow> study list option" where
  "collect_studies [] all_studies = Some all_studies"
| "collect_studies (Boom # rs) all_studies = None"
| "collect_studies (Response status identifier # rs) all_studies =
     (if is_pending status
      then (case identifier of
              Some x \<Rightarrow> collect_studies rs (all_studies @ [x])
            | None \<Rightarrow> collect_studies rs all_studies)
      else collect_studies rs all_studies)"

text \<open>Lines 247-254: the modalities attribute is there and true, and its text has \<^verbatim>\<open>NM\<close> in it.\<close>

definition has_nm :: "study \<Rightarrow> bool" where
  "has_nm s =
     (case ModalitiesInStudy s of
        None \<Rightarrow> False
      | Some modalities \<Rightarrow> value_truthy modalities \<and> contains_str ''NM'' (py_str modalities))"

text \<open>Lines 245-260: the filter loop, which stops once the limit is reached.\<close>

fun filter_nm :: "int option \<Rightarrow> study list \<Rightarrow> study list \<Rightarrow> study list" where
  "filter_nm limit [] nm_studies = nm_studies"
| "filter_nm limit (s # ss) nm_studies =
     (if has_nm s
      then (if int_truthy limit \<and> the limit \<le> int (length (nm_studies @ [s]))
            then nm_studies @ [s]
            else filter_nm limit ss (nm_studies @ [s]))
      else filter_nm limit ss nm_studies)"

text \<open>The call: the studies it returns and the events it adds to the trace.\<close>

definition find_nm_studies :: "env \<Rightarrow> int option \<Rightarrow> string option \<Rightarrow> study list \<times> event list" where
  "find_nm_studies e limit sd =
     (let d = query_study_date (env_clock e) sd
      in case study_find e d of
           AssociateRaises \<Rightarrow> ([], [Log FindError])
         | NotEstablished \<Rightarrow> ([], [Log FindAssocFailed])
         | Established rs \<Rightarrow>
             (case collect_studies rs [] of
                None \<Rightarrow> ([], [Associated, CFindStudy d, Log FindError])
              | Some all_studies \<Rightarrow>
                  (if all_studies = [] then ([], [Associated, CFindStudy d, Released])
                   else (let nm_studies = filter_nm limit all_studies []
                         in (if int_truthy limit then py_take (the limit) nm_studies else nm_studies,
                             [Associated, CFindStudy d, Released])))))"

subsection \<open>\<^verbatim>\<open>find_nm_series\<close> (lines 276-310)\<close>

text \<open>
  Lines 298-304: the loop returns the series gathered and whether the iteration raised;
  it stops at the limit.
\<close>

fun collect_series :: "int option \<Rightarrow> series response list \<Rightarrow> series list \<Rightarrow> series list \<times> bool" where
  "collect_series limit [] acc = (acc, False)"
| "collect_series limit (Boom # rs) acc = (acc, True)"
| "collect_series limit (Response status identifier # rs) acc =
     (if is_pending status
      then (case identifier of
              Some x \<Rightarrow>
                (if int_truthy limit \<and> the limit \<le> int (length (acc @ [x]))
                 then (acc @ [x], False)
                 else collect_series limit rs (acc @ [x]))
            | None \<Rightarrow> collect_series limit rs acc)
      else collect_series limit rs acc)"

definition find_nm_series :: "env \<Rightarrow> string \<Rightarrow> int option \<Rightarrow> series list \<times> event list" where
  "find_nm_series e study_uid limit =
     (case series_find e study_uid of
        AssociateRaises \<Rightarrow> ([], [Log SeriesFindError])
      | NotEstablished \<Rightarrow> ([], [])
      | Established rs \<Rightarrow>
          (case collect_series limit rs [] of
             (acc, raised) \<Rightarrow>
               (acc, [Associated, CFindSeries study_uid]
                     @ (if raised then [Log SeriesFindError] else [Released]))))"

subsection \<open>\<^verbatim>\<open>_retrieve_with_get\<close> (lines 349-439)\<close>

text \<open>
  Lines 397-403: the count of completed sub-operations. Every line of the output that
  has the marker in it is read; when the text after its first colon is an integer, that
  integer replaces the count, else (no colon, or no integer) the line is passed over.
\<close>

definition completed_of_line :: "int \<Rightarrow> string \<Rightarrow> int" where
  "completed_of_line completed line =
     (if contains_str ''Completed Suboperations'' line
      then (case split_on (CHR '':'') line of
              _ # p # _ \<Rightarrow> (case py_int (strip p) of Some n \<Rightarrow> n | None \<Rightarrow> completed)
            | _ \<Rightarrow> completed)
      else completed)"

definition parse_completed :: "string \<Rightarrow> int" where
  "parse_completed out = foldl completed_of_line 0 (split_on (CHR 0x0A) out)"

text \<open>
  Lines 410-416: renaming one file to its name with \<^verbatim>\<open>.dcm\<close> appended. The rename
  raises (\<open>None\<close>) when the environment says so, when the file is no longer there, or
  when the new name is a directory; a file of the new name is replaced.
\<close>

definition dcm_name :: "fkey \<Rightarrow> fkey" where
  "dcm_name k = (fst k, snd k @ ''.dcm'')"

definition rename_file :: "(fkey \<Rightarrow> bool) \<Rightarrow> fkey \<Rightarrow> fs \<Rightarrow> fs option" where
  "rename_file fails k t =
     (if fails k \<or> k \<notin> set (file_keys t) \<or> fst k @ [snd k @ ''.dcm''] \<in> set (dirs t) then None
      else Some (t\<lparr>files := map (\<lambda>(k', c). if k' = k then (dcm_name k, c) else (k', c))
                               (filter (\<lambda>(k', c). k' \<noteq> dcm_name k) (files t))\<rparr>))"

text \<open>
  Lines 406-416: the pass over the files the walk lists. A failed rename is logged and
  the pass goes on.
\<close>

fun repair_loop :: "(fkey \<Rightarrow> bool) \<Rightarrow> fkey list \<Rightarrow> fs \<Rightarrow> nat \<Rightarrow> event list \<Rightarrow> fs \<times> nat \<times> event list" where
  "repair_loop fails [] t renamed_count evs = (t, renamed_count, evs)"
| "repair_loop fails (k # ks) t renamed_count evs =
     (if endswith (snd k) ''.dcm'' then repair_loop fails ks t renamed_count evs
      else (case rename_file fails k t of
              Some t' \<Rightarrow> repair_loop fails ks t' (renamed_count + 1) (evs @ [Renamed (fst k) (snd k)])
            | None \<Rightarrow> repair_loop fails ks t renamed_count (evs @ [Log (RenameFailed (fst k) (snd k))])))"

definition repair_pass :: "(fkey \<Rightarrow> bool) \<Rightarrow> fs \<Rightarrow> fs \<times> nat \<times> event list" where
  "repair_pass fails t = repair_loop fails (file_keys t) t 0 []"

text \<open>The files the tool stores in the output root.\<close>

definition tool_stores :: "(string \<times> nat) list \<Rightarrow> fs \<Rightarrow> fs" where
  "tool_stores stored t = fold (\<lambda>(n, c). write_file ([], n) c) stored t"

text \<open>
  The call for one series. Its dataset is always built by \<^verbatim>\<open>retrieve_study\<close>, at
  series level with both UIDs, so the two UIDs stand for it.
\<close>

definition retrieve_with_get :: "env \<Rightarrow> state \<Rightarrow> string \<Rightarrow> string \<Rightarrow> bool \<times> state" where
  "retrieve_with_get e st study_uid series_uid =
     (let st0 = emit [CallGet study_uid series_uid] st
      in if \<not> getscu_found e then (False, emit [Log GetscuMissing] st0)
         else (case getscu_run e study_uid series_uid of
                 RunRaises \<Rightarrow> (False, emit [ToolRun study_uid series_uid, Log GetscuError] st0)
               | TimeoutExpired stored \<Rightarrow>
                   (False, emit [ToolRun study_uid series_uid, Log GetscuTimeout]
                             (st0\<lparr>outdir := tool_stores stored (outdir st0)\<rparr>))
               | Completed returncode out stored \<Rightarrow>
                   (let st1 = emit [ToolRun study_uid series_uid]
                                (st0\<lparr>outdir := tool_stores stored (outdir st0)\<rparr>)
                    in if returncode = 0
                       then (let completed = parse_completed out
                             in case repair_pass (rename_fails e) (outdir st1) of
                                  (t, renamed_count, evs) \<Rightarrow>
                                    (let st2 = emit (evs @ (if 0 < renamed_count
                                                            then [Log (RenamedFiles renamed_count)] else []))
                                                 (st1\<lparr>outdir := t\<rparr>)
                                     in if 0 < completed
                                        then (True, emit [Log (RetrievedImages completed)]
                                                      (st2\<lparr>image_count := image_count st2 + completed\<rparr>))
                                        else (True, emit [Log GetscuCompleted] st2)))
                       else (False, emit [Log (GetscuFailed returncode)] st1))))"

subsection \<open>\<^verbatim>\<open>_retrieve_with_move\<close> (lines 443-507)\<close>

text \<open>
  Lines 492-496: the loop over the statuses of the move. It logs a warning for the four
  listed codes and does nothing else; the result is the log lines and whether the
  iteration raised.
\<close>

fun move_statuses :: "unit response list \<Rightarrow> event list \<Rightarrow> event list \<times> bool" where
  "move_statuses [] evs = (evs, False)"
| "move_statuses (Boom # rs) evs = (evs, True)"
| "move_statuses (Response status identifier # rs) evs =
     (case status of
        None \<Rightarrow> move_statuses rs evs
      | Some c \<Rightarrow>
          (if c = 0xA701 \<or> c = 0xA702 \<or> c = 0xA900 \<or> c = 0xC000
           then move_statuses rs (evs @ [Log (MoveStatusWarning c)])
           else move_statuses rs evs))"

text \<open>
  The call for one series. The objects of the move arrive at the listener while the
  move runs; the model hands them to the callback after the request is sent and before
  the statuses are read. The listener is stopped on every path that started it.
\<close>

definition retrieve_with_move :: "env \<Rightarrow> state \<Rightarrow> string \<Rightarrow> string \<Rightarrow> bool \<times> state" where
  "retrieve_with_move e st study_uid series_uid =
     (let st0 = emit [CallMove study_uid series_uid] st
      in case scp_start e study_uid series_uid of
           StartRaises \<Rightarrow> (False, emit [Log ScpFailed] st0)
         | StartNone \<Rightarrow> (False, emit [Log ScpNone] st0)
         | Started \<Rightarrow>
             (let st1 = emit [ListenerStarted] st0
              in case (case move_assoc e study_uid series_uid of
                         AssociateRaises \<Rightarrow> (False, emit [Log MoveError] st1)
                       | NotEstablished \<Rightarrow> (False, emit [Log MoveAssocFailed] st1)
                       | Established rs \<Rightarrow>
                           (let st2 = store_all (deliveries e study_uid series_uid)
                                        (emit [Associated, CMove study_uid series_uid] st1)
                            in case move_statuses rs [] of
                                 (evs, raised) \<Rightarrow>
                                   (if raised then (False, emit (evs @ [Log MoveError]) st2)
                                    else (True, emit (evs @ [Released]) st2)))) of
                   (ok, st3) \<Rightarrow> (ok, emit [ListenerStopped] st3)))"

subsection \<open>\<^verbatim>\<open>retrieve_study\<close> (lines 312-347)\<close>

text \<open>Lines 330-345: every series is retrieved; one failure makes the result false.\<close>

fun series_loop :: "env \<Rightarrow> string \<Rightarrow> series list \<Rightarrow> bool \<Rightarrow> state \<Rightarrow> bool \<times> state" where
  "series_loop e study_uid [] success st = (success, st)"
| "series_loop e study_uid (s # ss) success st =
     (case (if use_c_get st
            then retrieve_with_get e st study_uid (SeriesInstanceUID s)
            else retrieve_with_move e st study_uid (SeriesInstanceUID s)) of
        (ok, st') \<Rightarrow> series_loop e study_uid ss (if ok then success else False) st')"

definition retrieve_study :: "env \<Rightarrow> state \<Rightarrow> string \<Rightarrow> bool \<times> state" where
  "retrieve_study e st study_uid =
     (let st0 = emit [Log (RetrievingStudy study_uid)] st
      in if dry_run st then (True, emit [Log (WouldRetrieve study_uid)] st0)
         else (case find_nm_series e study_uid None of
                 (nm_series, evs) \<Rightarrow>
                   (let st1 = emit evs st0
                    in if nm_series = [] then (False, emit [Log (NoSeriesFound study_uid)] st1)
                       else series_loop e study_uid nm_series True
                              (emit [Log (FoundSeries (length nm_series))] st1))))"

subsection \<open>\<^verbatim>\<open>retrieve_images\<close> (lines 509-564)\<close>

text \<open>
  Lines 545-553: the loop over the studies. The result of \<^verbatim>\<open>retrieve_study\<close> is
  not looked at; the loop stops after a study once the counter has reached the limit.
\<close>

fun study_loop :: "env \<Rightarrow> int option \<Rightarrow> nat \<Rightarrow> nat \<Rightarrow> study list \<Rightarrow> state \<Rightarrow> state" where
  "study_loop e max_images n_studies idx [] st = st"
| "study_loop e max_images n_studies idx (s # ss) st =
     (let st1 = emit [Log (ProcessingStudy idx n_studies (StudyInstanceUID s))] st;
          st2 = snd (retrieve_study e st1 (StudyInstanceUID s))
      in if int_truthy max_images \<and> the max_images \<le> image_count st2
         then emit [Log (ReachedImageLimit (the max_images))] st2
         else study_loop e max_images n_studies (idx + 1) ss st2)"



subsection \<open>Reading a response list and a trace\<close>

text \<open>
  The identifiers a response list discovers: those of its pending responses, in the
  order of the list, up to the exception if there is one.
\<close>

fun discovered :: "'a response list \<Rightarrow> 'a list" where
  "discovered [] = []"
| "discovered (Boom # rs) = []"
| "discovered (Response status identifier # rs) =
     (case identifier of
        Some x \<Rightarrow> (if is_pending status then x # discovered rs else discovered rs)
      | None \<Rightarrow> discovered rs)"

text \<open>The events a call added to the trace.\<close>

definition new_events :: "state \<Rightarrow> state \<Rightarrow> event list" where
  "new_events st st' = drop (length (trace st)) (trace st')"



text \<open>
  A string that is one directory name when it is joined to a path: not empty, not
  \<^verbatim>\<open>.\<close> or \<^verbatim>\<open>..\<close>, and without \<^verbatim>\<open>/\<close>.
\<close>

definition plain_name :: "string \<Rightarrow> bool" where
  "plain_name s \<longleftrightarrow> s \<noteq> [] \<and> s \<noteq> ''.'' \<and> s \<noteq> ''..'' \<and> CHR ''/'' \<notin> set s"

fun is_log :: "event \<Rightarrow> bool" where
  "is_log (Log l) = True"
| "is_log ev = False"

subsection \<open>A concrete clock for the examples\<close>

text \<open>
  A clock standing at 4 November 2026 (day 20761 after 1 January 1970), with the
  rendering of the two days the examples ask for.
\<close>

definition clock_20261104 :: clock where
  "clock_20261104 =
     \<lparr>today = 20761,
      strftime_Ymd = (\<lambda>d. if d = 20761 then ''20261104'' else if d = 20731 then ''20261005'' else ''00000000'')\<rparr>"

subsection \<open>Concrete scenarios\<close>

text \<open>
  The state after the constructor, for a dry-run flag and a strategy flag: the output
  directory is \<^verbatim>\<open>/data/nm_images\<close>, the counter is 0, the directory exists and is
  taken to be empty, nothing has happened yet.
\<close>

definition init :: "bool \<Rightarrow> bool \<Rightarrow> state" where
  "init dry get =
     \<lparr>output_dir = [''data'', ''nm_images''], dry_run = dry, use_c_get = get, self_study_date = None, image_count = 0,
      outdir = \<lparr>dirs = [], files = []\<rparr>, trace = []\<rparr>"

text \<open>
  An environment in which nothing answers: no association is established, the tool is
  not installed, the listener does not start. The scenarios below change the parts
  they need.
\<close>

definition idle_env :: env where
  "idle_env =
     \<lparr>env_clock = clock_20261104,
      study_find = (\<lambda>d. NotEstablished),
      series_find = (\<lambda>u. NotEstablished),
      getscu_found = False,
      getscu_run = (\<lambda>u s. RunRaises),
      rename_fails = (\<lambda>k. False),
      scp_start = (\<lambda>u s. StartRaises),
      move_assoc = (\<lambda>u s. NotEstablished),
      deliveries = (\<lambda>u s. [])\<rparr>"

text \<open>A study with the modalities CT and NM that declares ten instances, and a pending response carrying an identifier.\<close>

definition nm_study :: "string \<Rightarrow> study" where
  "nm_study uid =
     \<lparr>StudyInstanceUID = uid, ModalitiesInStudy = Some (Multi [''CT'', ''NM'']),
      NumberOfStudyRelatedInstances = Some 10\<rparr>"

definition pending :: "'a \<Rightarrow> 'a response" where
  "pending x = Response (Some 0xFF00) (Some x)"

text \<open>Two series of a study, and environments built from \<open>idle_env\<close>.\<close>

definition series_1 :: series where "series_1 = \<lparr>SeriesInstanceUID = ''1.2.3''\<rparr>"

definition series_2 :: series where "series_2 = \<lparr>SeriesInstanceUID = ''1.2.4''\<rparr>"

text \<open>The archive answers both queries: one NM study, two series.\<close>

definition answering_env :: env where
  "answering_env =
     idle_env\<lparr>study_find := (\<lambda>d. Established [pending (nm_study ''A'')]),
              series_find := (\<lambda>u. Established [pending series_1, pending series_2])\<rparr>"


text \<open>The listener starts and the move is answered with the failure status \<open>0xC000\<close>.\<close>

definition failing_move_env :: env where
  "failing_move_env =
     answering_env\<lparr>scp_start := (\<lambda>u s. Started),
                   move_assoc := (\<lambda>u s. Established [Response (Some 0xC000) None])\<rparr>"

text \<open>An object whose file cannot be written, and a move that delivers two of them.\<close>

definition unwritable :: "string \<Rightarrow> delivery" where
  "unwritable sop =
     \<lparr>obj = \<lparr>PatientID = Some ''P1'', obj_StudyInstanceUID = Some ''A'',
             obj_SeriesInstanceUID = Some ''1.2.3'', SOPInstanceUID = Some sop, payload = 7\<rparr>,
      mkdir_raises = False, save_raises = True\<rparr>"

definition failing_store_env :: env where
  "failing_store_env =
     idle_env\<lparr>series_find := (\<lambda>u. Established [pending series_1]),
              scp_start := (\<lambda>u s. Started),
              move_assoc := (\<lambda>u s. Established [Response (Some 0) None]),
              deliveries := (\<lambda>u s. [unwritable ''1.2.3.1'', unwritable ''1.2.3.2''])\<rparr>"

text \<open>
  An object whose patient identifier and study UID are both \<open>AB/12*ID\<close>, with UIDs
  of the usual dotted form for the series and the instance.
\<close>

definition slashed :: delivery where
  "slashed =
     \<lparr>obj = \<lparr>PatientID = Some ''AB/12*ID'', obj_StudyInstanceUID = Some ''AB/12*ID'',
             obj_SeriesInstanceUID = Some ''1.2.840'', SOPInstanceUID = Some ''1.2.840.1'', payload = 7\<rparr>,
      mkdir_raises = False, save_raises = False\<rparr>"

text \<open>
  An object with the patient identifier \<open>AB/12*ID\<close> and UIDs of the usual dotted
  form, and an object without any of the four attributes.
\<close>

definition dotted :: delivery where
  "dotted =
     \<lparr>obj = \<lparr>PatientID = Some ''AB/12*ID'', obj_StudyInstanceUID = Some ''1.2.840'',
             obj_SeriesInstanceUID = Some ''1.2.840.5'', SOPInstanceUID = Some ''1.2.840.5.1'', payload = 7\<rparr>,
      mkdir_raises = False, save_raises = False\<rparr>"

definition bare :: stored_object where
  "bare =
     \<lparr>PatientID = None, obj_StudyInstanceUID = None,
      obj_SeriesInstanceUID = None, SOPInstanceUID = None, payload = 3\<rparr>"


text \<open>
  An output directory with a file \<open>1.2.840\<close> in the root and a file \<open>x.dcm\<close> in a
  subdirectory; and one in which the file \<open>a\<close> lies beside a directory named
  \<open>a.dcm\<close>, so that the file cannot be renamed.
\<close>

definition mixed_tree :: fs where
  "mixed_tree = \<lparr>dirs = [''P1''] # [], files = [(([], ''1.2.840''), 1), (([''P1''], ''x.dcm''), 2)]\<rparr>"

definition blocked_tree :: fs where
  "blocked_tree = \<lparr>dirs = [''a.dcm''] # [], files = [(([], ''a''), 1)]\<rparr>"

text \<open>
  The external tool succeeds and stores one file. In the first environment its output
  has the line \<open>Completed Suboperations : 12\<close>; in the second the line carries a
  log-level prefix, so that the text after its first colon is not an integer.
\<close>

definition counting_tool_env :: env where
  "counting_tool_env =
     idle_env\<lparr>series_find := (\<lambda>u. Established [pending series_1]),
              getscu_found := True,
              getscu_run := (\<lambda>u s. Completed 0
                 (''I: Received Final Get Response'' @ [CHR 0x0A] @ ''Completed Suboperations : 12'')
                 [(''NM.1.2.3.1'', 5)])\<rparr>"

definition prefixed_tool_env :: env where
  "prefixed_tool_env =
     idle_env\<lparr>series_find := (\<lambda>u. Established [pending series_1]),
              getscu_found := True,
              getscu_run := (\<lambda>u s. Completed 0
                 (''I: Received Final Get Response'' @ [CHR 0x0A] @ ''D: Completed Suboperations : 12'')
                 [(''NM.1.2.3.1'', 5)])\<rparr>"

section \<open>Properties\<close>

subsection \<open>Strings and the find loops\<close>

lemma startswith_iff: "startswith s p \<longleftrightarrow> (\<exists>r. s = p @ r)"
  by (induction s p rule: startswith.induct) auto

lemma contains_str_iff: "contains_str sub s \<longleftrightarrow> (\<exists>a b. s = a @ sub @ b)"
proof (induction s)
  case Nil
  then show ?case by auto
next
  case (Cons c cs)
  show ?case
  proof
    assume "contains_str sub (c # cs)"
    then consider "startswith (c # cs) sub" | "contains_str sub cs" by auto
    then show "\<exists>a b. c # cs = a @ sub @ b"
    proof cases
      case 1
      then obtain r where "c # cs = sub @ r" by (auto simp: startswith_iff)
      then have "c # cs = [] @ sub @ r" by simp
      then show ?thesis by blast
    next
      case 2
      then obtain a b where "cs = a @ sub @ b" using Cons.IH by auto
      then have "c # cs = (c # a) @ sub @ b" by simp
      then show ?thesis by blast
    qed
  next
    assume "\<exists>a b. c # cs = a @ sub @ b"
    then obtain a b where ab: "c # cs = a @ sub @ b" by auto
    show "contains_str sub (c # cs)"
    proof (cases a)
      case Nil
      then have "startswith (c # cs) sub" using ab by (auto simp: startswith_iff)
      then show ?thesis by simp
    next
      case (Cons x a')
      then have "cs = a' @ sub @ b" using ab by simp
      then have "contains_str sub cs" using Cons.IH by blast
      then show ?thesis by simp
    qed
  qed
qed

lemma endswith_iff: "endswith s suf \<longleftrightarrow> (\<exists>a. s = a @ suf)"
proof -
  have "(\<exists>r. rev s = rev suf @ r) \<longleftrightarrow> (\<exists>a. s = a @ suf)"
  proof
    assume "\<exists>r. rev s = rev suf @ r"
    then obtain r where "rev s = rev suf @ r" by auto
    then have "s = rev r @ suf" by (metis rev_append rev_rev_ident)
    then show "\<exists>a. s = a @ suf" by blast
  next
    assume "\<exists>a. s = a @ suf"
    then obtain a where "s = a @ suf" by auto
    then have "rev s = rev suf @ rev a" by simp
    then show "\<exists>r. rev s = rev suf @ r" by blast
  qed
  then show ?thesis by (simp add: endswith_def startswith_iff)
qed

lemma collect_studies_discovered:
  "Boom \<notin> set rs \<Longrightarrow> collect_studies rs acc = Some (acc @ discovered rs)"
  by (induction rs acc rule: collect_studies.induct) (auto split: option.splits)


lemma filter_nm_no_limit:
  "\<not> int_truthy limit \<Longrightarrow> filter_nm limit ss acc = acc @ filter has_nm ss"
  by (induction ss arbitrary: acc) auto

lemma filter_nm_limit:
  "0 < n \<Longrightarrow> int (length acc) < n \<Longrightarrow>
     filter_nm (Some n) ss acc = take (nat n) (acc @ filter has_nm ss)"
proof (induction ss arbitrary: acc)
  case Nil
  then show ?case by simp
next
  case (Cons s ss)
  show ?case
  proof (cases "has_nm s")
    case False
    then show ?thesis using Cons by simp
  next
    case True
    show ?thesis
    proof (cases "n \<le> int (length (acc @ [s]))")
      case True
      then have "nat n = length (acc @ [s])" using Cons.prems by simp
      then show ?thesis using \<open>has_nm s\<close> True Cons.prems by (simp add: int_truthy_def)
    next
      case False
      then have "int (length (acc @ [s])) < n" by simp
      from Cons.IH [OF Cons.prems(1) this] False \<open>has_nm s\<close>
      show ?thesis by simp
    qed
  qed
qed

lemma py_take_take: "0 < n \<Longrightarrow> py_take n (take (nat n) xs) = take (nat n) xs"
  by (simp add: py_take_def)

lemma has_nm_iff:
  "has_nm s \<longleftrightarrow> (\<exists>m a b. ModalitiesInStudy s = Some m \<and> py_str m = a @ ''NM'' @ b)"
proof -
  have falsy: "\<not> value_truthy m \<Longrightarrow> \<not> contains_str ''NM'' (py_str m)" for m
    by (cases m) auto
  show ?thesis
    unfolding has_nm_def using falsy
    by (auto simp: contains_str_iff split: option.splits)
qed

subsection \<open>The state and the trace through the calls\<close>

lemma emit_fields [simp]:
  "dry_run (emit evs st) = dry_run st"
  "use_c_get (emit evs st) = use_c_get st"
  "self_study_date (emit evs st) = self_study_date st"
  "image_count (emit evs st) = image_count st"
  "outdir (emit evs st) = outdir st"
  "trace (emit evs st) = trace st @ evs"
  "output_dir (emit evs st) = output_dir st"
  by (simp_all add: emit_def)

lemma new_events_append [simp]:
  "trace st' = trace st @ evs \<Longrightarrow> new_events st st' = evs"
  by (simp add: new_events_def)

lemma split_on_no_sep: "sep \<notin> set s \<Longrightarrow> split_on sep s = [s]"
  by (induction s) auto

lemma segment_parts_name:
  "CHR ''/'' \<notin> set s \<Longrightarrow> segment_parts s = (if s = [] \<or> s = ''.'' then [] else [s])"
  by (simp add: segment_parts_def split_on_no_sep)

lemma startswith_slash: "startswith s ''/'' \<Longrightarrow> CHR ''/'' \<in> set s"
  by (cases s) auto

lemma joinpath_name:
  "CHR ''/'' \<notin> set s \<Longrightarrow> joinpath ps s = ps @ (if s = [] \<or> s = ''.'' then [] else [s])"
  using startswith_slash [of s] by (auto simp: joinpath_def segment_parts_name)

lemma sanitize_chars: "c \<in> set (sanitize s) \<Longrightarrow> isalnum c \<or> c = CHR ''-'' \<or> c = CHR ''_''"
  by (auto simp: sanitize_def)

lemma sanitize_no_slash: "CHR ''/'' \<notin> set (sanitize s)" "sanitize s \<noteq> ''.''" "sanitize s \<noteq> ''..''"
proof -
  have a: "\<not> (isalnum (CHR ''/'') \<or> CHR ''/'' = CHR ''-'' \<or> CHR ''/'' = CHR ''_'')"
    by (simp add: isalnum_def)
  have b: "\<not> (isalnum (CHR ''.'') \<or> CHR ''.'' = CHR ''-'' \<or> CHR ''.'' = CHR ''_'')"
    by (simp add: isalnum_def)
  show "CHR ''/'' \<notin> set (sanitize s)" using a sanitize_chars by blast
  have "CHR ''.'' \<notin> set (sanitize s)" using b sanitize_chars by blast
  then show "sanitize s \<noteq> ''.''" "sanitize s \<noteq> ''..''" by auto
qed

lemma below_self [simp]: "below root (root @ r) = Some r"
  by (simp add: below_def)

lemma below_inner: "b \<noteq> [] \<Longrightarrow> below (a @ b) (a @ [p]) = (if b = [p] then Some [] else None)"
  by (cases b) (auto simp: below_def)

lemma mkdir_walk_files: "files (snd (mkdir_walk root c ps t)) = files t"
  by (induction ps arbitrary: c t) (auto simp: file_keys_def split: option.splits)

lemma mkdir_parents_files: "files (snd (mkdir_parents root p t)) = files t"
  by (simp add: mkdir_parents_def mkdir_walk_files)

lemma mkdir_walk_mono: "set (dirs t) \<subseteq> set (dirs (snd (mkdir_walk root c ps t)))"
proof (induction ps arbitrary: c t)
  case Nil
  then show ?case by simp
next
  case (Cons p ps)
  show ?case
  proof (cases "p = ''..''")
    case True
    then show ?thesis using Cons.IH by simp
  next
    case False
    show ?thesis
    proof (cases "below root (c @ [p])")
      case None
      then show ?thesis using False Cons.IH by simp
    next
      case (Some r)
      have "set (dirs t) \<subseteq> set (dirs (t\<lparr>dirs := dirs t @ [r]\<rparr>))" by auto
      then show ?thesis
        using False Some Cons.IH [where c = "c @ [p]" and t = t]
          Cons.IH [where c = "c @ [p]" and t = "t\<lparr>dirs := dirs t @ [r]\<rparr>"]
        by (auto simp del: mkdir_walk.simps simp add: mkdir_walk.simps(2) [of root c p ps t])
    qed
  qed
qed

lemma mkdir_walk_root:
  "''..'' \<notin> set b \<Longrightarrow> mkdir_walk (a @ b) a (b @ ps) t = mkdir_walk (a @ b) (a @ b) ps t"
proof (induction b arbitrary: a)
  case Nil
  then show ?case by simp
next
  case (Cons p b)
  have ih: "mkdir_walk ((a @ [p]) @ b) (a @ [p]) (b @ ps) t = mkdir_walk ((a @ [p]) @ b) ((a @ [p]) @ b) ps t"
    using Cons.IH [of "a @ [p]"] Cons.prems by simp
  have bl: "below (a @ p # b) (a @ [p]) = (if b = [] then Some [] else None)"
    using below_inner [of "p # b" a p] by simp
  have pn: "p \<noteq> ''..''" using Cons.prems by auto
  have "mkdir_walk (a @ p # b) a ((p # b) @ ps) t = mkdir_walk (a @ p # b) (a @ [p]) (b @ ps) t"
    using pn bl by simp
  then show ?case using ih by simp
qed

lemma locate_root:
  "''..'' \<notin> set b \<Longrightarrow> locate (a @ b) a (b @ ps) t = locate (a @ b) (a @ b) ps t"
proof (induction b arbitrary: a)
  case Nil
  then show ?case by simp
next
  case (Cons p b)
  have ih: "locate ((a @ [p]) @ b) (a @ [p]) (b @ ps) t = locate ((a @ [p]) @ b) ((a @ [p]) @ b) ps t"
    using Cons.IH [of "a @ [p]"] Cons.prems by simp
  have bl: "below (a @ p # b) (a @ [p]) = (if b = [] then Some [] else None)"
    using below_inner [of "p # b" a p] by simp
  have pn: "p \<noteq> ''..''" using Cons.prems by auto
  have "locate (a @ p # b) a ((p # b) @ ps) t = locate (a @ p # b) (a @ [p]) (b @ ps) t"
    using pn bl by simp
  then show ?case using ih by simp
qed

lemma mkdir_walk_inside:
  "fst (mkdir_walk root (root @ r) ns t) \<Longrightarrow> ''..'' \<notin> set ns \<Longrightarrow> 0 < k \<Longrightarrow> k \<le> length ns \<Longrightarrow>
   r @ take k ns \<in> set (dirs (snd (mkdir_walk root (root @ r) ns t)))"
proof (induction ns arbitrary: r t k)
  case Nil
  then show ?case by simp
next
  case (Cons n ns)
  let ?t' = "if r @ [n] \<in> set (dirs t) then t else t\<lparr>dirs := dirs t @ [r @ [n]]\<rparr>"
  have pn: "n \<noteq> ''..''" "''..'' \<notin> set ns" using Cons.prems(2) by auto
  have nf: "(r, n) \<notin> set (file_keys t)"
    using Cons.prems(1) pn by (auto split: if_splits)
  have step: "mkdir_walk root (root @ r) (n # ns) t = mkdir_walk root (root @ (r @ [n])) ns ?t'"
    using pn nf by simp
  have f: "fst (mkdir_walk root (root @ (r @ [n])) ns ?t')"
    using Cons.prems(1) unfolding step .
  have here: "r @ [n] \<in> set (dirs ?t')" by simp
  show ?case
  proof (cases "k = 1")
    case True
    have "r @ [n] \<in> set (dirs (snd (mkdir_walk root (root @ (r @ [n])) ns ?t')))"
      using here mkdir_walk_mono [of ?t' root "root @ (r @ [n])" ns] by blast
    then show ?thesis unfolding step using True by simp
  next
    case False
    then obtain j where j: "k = Suc j" "0 < j" "j \<le> length ns"
      using Cons.prems(3,4) by (cases k) auto
    have "(r @ [n]) @ take j ns \<in> set (dirs (snd (mkdir_walk root (root @ (r @ [n])) ns ?t')))"
      using Cons.IH [OF f pn(2) j(2,3)] by simp
    then show ?thesis unfolding step using j by simp
  qed
qed

lemma locate_inside:
  "''..'' \<notin> set ns \<Longrightarrow> (\<forall>k. 0 < k \<and> k \<le> length ns \<longrightarrow> r @ take k ns \<in> set (dirs t)) \<Longrightarrow>
   locate root (root @ r) ns t = Some (root @ r @ ns)"
proof (induction ns arbitrary: r)
  case Nil
  then show ?case by simp
next
  case (Cons n ns)
  have h: "r @ [n] \<in> set (dirs t)"
    using Cons.prems(2) [rule_format, of 1] by simp
  have rest: "\<forall>k. 0 < k \<and> k \<le> length ns \<longrightarrow> (r @ [n]) @ take k ns \<in> set (dirs t)"
  proof (intro allI impI)
    fix k assume "0 < k \<and> k \<le> length ns"
    then show "(r @ [n]) @ take k ns \<in> set (dirs t)"
      using Cons.prems(2) [rule_format, of "Suc k"] by simp
  qed
  have pn: "n \<noteq> ''..''" "''..'' \<notin> set ns" using Cons.prems(1) by auto
  have "locate root (root @ r) (n # ns) t = locate root (root @ (r @ [n])) ns t"
    using pn h by simp
  then show ?case using Cons.IH [OF pn(2) rest] by simp
qed

lemma handle_store_flags [simp]:
  "dry_run (snd (handle_store st x)) = dry_run st"
  "use_c_get (snd (handle_store st x)) = use_c_get st"
  "output_dir (snd (handle_store st x)) = output_dir st"
  by (simp_all add: handle_store_def Let_def emit_def split: option.splits prod.splits bool.splits)

lemma handle_store_count [simp]:
  "image_count (snd (handle_store st x)) = image_count st + 1"
  by (simp add: handle_store_def Let_def emit_def split: option.splits prod.splits bool.splits)

lemma handle_store_trace:
  "\<exists>evs. trace (snd (handle_store st x)) = trace st @ evs"
  by (simp add: handle_store_def Let_def emit_def split: option.splits prod.splits bool.splits)

lemma store_all_flags [simp]:
  "dry_run (store_all xs st) = dry_run st"
  "use_c_get (store_all xs st) = use_c_get st"
  by (induction xs arbitrary: st) simp_all

lemma store_all_count [simp]:
  "image_count (store_all xs st) = image_count st + int (length xs)"
  by (induction xs arbitrary: st) simp_all

lemma store_all_trace:
  "\<exists>evs. trace (store_all xs st) = trace st @ evs"
proof (induction xs arbitrary: st)
  case Nil
  then show ?case by simp
next
  case (Cons x xs)
  obtain a where a: "trace (snd (handle_store st x)) = trace st @ a"
    using handle_store_trace by blast
  obtain b where b: "trace (store_all xs (snd (handle_store st x))) = trace (snd (handle_store st x)) @ b"
    using Cons.IH by blast
  show ?case using a b by simp
qed

lemma handle_store_files:
  assumes "save_raises x"
  shows "files (outdir (snd (handle_store st x))) = files (outdir st)"
proof -
  let ?m = "mkdir_parents (output_dir st) (save_dir (output_dir st) (obj x)) (outdir st)"
  have "files (snd ?m) = files (outdir st)"
    by (rule mkdir_parents_files)
  then show ?thesis
    using assms
    by (cases ?m) (auto simp: handle_store_def Let_def emit_def split: bool.splits)
qed

lemma store_all_files:
  "\<forall>x \<in> set xs. save_raises x \<Longrightarrow> files (outdir (store_all xs st)) = files (outdir st)"
  by (induction xs arbitrary: st) (simp_all add: handle_store_files)

lemma write_file_mem: "(k, c) \<in> set (files (write_file k c t))"
proof (cases "k \<in> set (file_keys t)")
  case True
  then obtain c' where "(k, c') \<in> set (files t)"
    by (auto simp: file_keys_def)
  then have "(\<lambda>(k', c'). if k' = k then (k, c) else (k', c')) (k, c')
               \<in> (\<lambda>(k', c'). if k' = k then (k, c) else (k', c')) ` set (files t)"
    by (rule imageI)
  then show ?thesis using True by (simp add: write_file_def)
next
  case False
  then show ?thesis by (simp add: write_file_def)
qed

lemma write_file_dirs [simp]: "dirs (write_file k c t) = dirs t"
  by (simp add: write_file_def)

lemma handle_store_success:
  assumes "\<not> dry_run st" "fst (handle_store st x) = Some 0"
  shows "\<exists>t1 t2. mkdir_parents (output_dir st) (save_dir (output_dir st) (obj x)) (outdir st) = (True, t1)
           \<and> open_write (output_dir st) (filepath (output_dir st) (obj x)) (payload (obj x)) t1 = Some t2
           \<and> outdir (snd (handle_store st x)) = t2
           \<and> trace (snd (handle_store st x))
               = trace st @ [MkDirs (save_dir (output_dir st) (obj x)),
                             Saved (filepath (output_dir st) (obj x)),
                             Log (StoredImage (image_count st + 1))]"
  using assms
  by (cases "mkdir_parents (output_dir st) (save_dir (output_dir st) (obj x)) (outdir st)")
     (auto simp: handle_store_def Let_def emit_def split: bool.splits option.splits if_splits)

lemma store_tree:
  assumes m: "mkdir_parents root (root @ ns) t = (True, t1)"
    and w: "open_write root (root @ ns @ [f]) c t1 = Some t2"
    and r: "''..'' \<notin> set root" and n: "''..'' \<notin> set ns" and f: "f \<noteq> ''..''"
  shows "((ns, f), c) \<in> set (files t2) \<and> (\<forall>k. 0 < k \<and> k \<le> length ns \<longrightarrow> take k ns \<in> set (dirs t2))"
proof -
  have w1: "mkdir_walk root [] (root @ ns) t = (True, t1)"
    using m by (auto simp: mkdir_parents_def split: if_splits)
  have "mkdir_walk ([] @ root) [] (root @ ns) t = mkdir_walk ([] @ root) ([] @ root) ns t"
    using r by (rule mkdir_walk_root)
  then have w2: "mkdir_walk root (root @ []) ns t = (True, t1)"
    using w1 by simp
  have d1: "take k ns \<in> set (dirs t1)" if "0 < k" "k \<le> length ns" for k
    using mkdir_walk_inside [of root "[]" ns t k] w2 n that by simp
  have "locate ([] @ root) [] (root @ ns) t1 = locate ([] @ root) ([] @ root) ns t1"
    using r by (rule locate_root)
  moreover have "locate root (root @ []) ns t1 = Some (root @ [] @ ns)"
    using n d1 by (intro locate_inside) auto
  ultimately have l: "locate root [] (root @ ns) t1 = Some (root @ ns)"
    by simp
  have bl: "butlast (root @ ns @ [f]) = root @ ns" "last (root @ ns @ [f]) = f"
    by (simp_all add: butlast_append)
  have b: "below root ((root @ ns) @ [f]) = Some (ns @ [f])"
    using below_self [of root "ns @ [f]"] by simp
  have "t2 = write_file (ns, f) c t1"
    using w f unfolding open_write_def bl l
    by (simp add: b split: if_splits)
  then show ?thesis
    using d1 write_file_mem [of "(ns, f)" c t1] by simp
qed

lemma move_statuses_raised:
  "snd (move_statuses rs evs) \<longleftrightarrow> Boom \<in> set rs"
  by (induction rs evs rule: move_statuses.induct) (auto split: option.splits)

lemma move_statuses_warning:
  "Boom \<notin> set rs \<Longrightarrow> Response (Some c) i \<in> set rs \<Longrightarrow>
   c = 0xA701 \<or> c = 0xA702 \<or> c = 0xA900 \<or> c = 0xC000 \<Longrightarrow>
     Log (MoveStatusWarning c) \<in> set (fst (move_statuses rs evs))"
proof (induction rs evs rule: move_statuses.induct)
  case (1 evs)
  then show ?case by simp
next
  case (2 rs evs)
  then show ?case by simp
next
  case (3 status idn rs evs)
  have keep: "x \<in> set evs' \<Longrightarrow> x \<in> set (fst (move_statuses rs' evs'))" for x rs' evs'
    by (induction rs' evs' rule: move_statuses.induct) (auto split: option.splits)
  show ?case
  proof (cases "Response (Some c) i = Response status idn")
    case True
    then have "status = Some c" by simp
    then show ?thesis using 3 keep [of "Log (MoveStatusWarning c)" "evs @ [Log (MoveStatusWarning c)]" rs]
      by auto
  next
    case False
    then have "Response (Some c) i \<in> set rs" using 3 by auto
    then show ?thesis using 3 by (auto split: option.splits)
  qed
qed

lemma retrieve_with_move_started:
  assumes "scp_start e u s = Started" and "move_assoc e u s = Established rs"
  shows "retrieve_with_move e st u s =
           (Boom \<notin> set rs,
            emit (fst (move_statuses rs []) @ [if Boom \<in> set rs then Log MoveError else Released]
                    @ [ListenerStopped])
              (store_all (deliveries e u s)
                 (emit [CallMove u s, ListenerStarted, Associated, CMove u s] st)))"
proof -
  obtain evs raised where ms: "move_statuses rs [] = (evs, raised)"
    by (cases "move_statuses rs []") auto
  have r: "raised \<longleftrightarrow> Boom \<in> set rs"
    using move_statuses_raised [of rs "[]"] ms by simp
  show ?thesis
    using assms ms r by (simp add: retrieve_with_move_def Let_def emit_def)
qed

lemma retrieve_with_move_result:
  "fst (retrieve_with_move e st u s) \<longleftrightarrow>
     scp_start e u s = Started \<and> (\<exists>rs. move_assoc e u s = Established rs \<and> Boom \<notin> set rs)"
proof (cases "scp_start e u s")
  case Started
  show ?thesis
  proof (cases "move_assoc e u s")
    case (Established rs)
    show ?thesis using Started Established
      by (simp add: retrieve_with_move_started [OF Started Established])
  qed (simp_all add: retrieve_with_move_def Let_def Started)
qed (simp_all add: retrieve_with_move_def Let_def)

lemma retrieve_with_move_flags [simp]:
  "dry_run (snd (retrieve_with_move e st u s)) = dry_run st"
  "use_c_get (snd (retrieve_with_move e st u s)) = use_c_get st"
proof -
  show "dry_run (snd (retrieve_with_move e st u s)) = dry_run st"
  proof (cases "scp_start e u s")
    case Started
    show ?thesis
    proof (cases "move_assoc e u s")
      case (Established rs)
      show ?thesis by (simp add: retrieve_with_move_started [OF Started Established])
    qed (simp_all add: retrieve_with_move_def Let_def Started)
  qed (simp_all add: retrieve_with_move_def Let_def)
  show "use_c_get (snd (retrieve_with_move e st u s)) = use_c_get st"
  proof (cases "scp_start e u s")
    case Started
    show ?thesis
    proof (cases "move_assoc e u s")
      case (Established rs)
      show ?thesis by (simp add: retrieve_with_move_started [OF Started Established])
    qed (simp_all add: retrieve_with_move_def Let_def Started)
  qed (simp_all add: retrieve_with_move_def Let_def)
qed

lemma retrieve_with_move_count:
  "scp_start e u s = Started \<Longrightarrow> move_assoc e u s = Established rs \<Longrightarrow>
     image_count (snd (retrieve_with_move e st u s)) = image_count st + int (length (deliveries e u s))"
  by (simp add: retrieve_with_move_started)

lemma retrieve_with_move_trace:
  "\<exists>evs. trace (snd (retrieve_with_move e st u s)) = trace st @ CallMove u s # evs"
proof (cases "scp_start e u s")
  case Started
  show ?thesis
  proof (cases "move_assoc e u s")
    case (Established rs)
    obtain a where "trace (store_all (deliveries e u s)
                 (emit [CallMove u s, ListenerStarted, Associated, CMove u s] st))
       = trace (emit [CallMove u s, ListenerStarted, Associated, CMove u s] st) @ a"
      using store_all_trace by blast
    then show ?thesis
      by (simp add: retrieve_with_move_started [OF Started Established])
  qed (simp_all add: retrieve_with_move_def Let_def Started)
qed (simp_all add: retrieve_with_move_def Let_def)

lemma series_loop_move_step:
  "\<not> use_c_get st \<Longrightarrow>
     series_loop e u (s # ss) b st =
       series_loop e u ss (if fst (retrieve_with_move e st u (SeriesInstanceUID s)) then b else False)
         (snd (retrieve_with_move e st u (SeriesInstanceUID s)))"
  by (simp split: prod.splits)

lemma series_loop_move_calls:
  "\<not> use_c_get st \<Longrightarrow>
     \<exists>evs. trace (snd (series_loop e u ss b st)) = trace st @ evs
          \<and> (\<forall>sr \<in> set ss. CallMove u (SeriesInstanceUID sr) \<in> set evs)"
proof (induction ss arbitrary: b st)
  case Nil
  then show ?case by simp
next
  case (Cons s ss)
  let ?r = "retrieve_with_move e st u (SeriesInstanceUID s)"
  obtain a where a: "trace (snd ?r) = trace st @ CallMove u (SeriesInstanceUID s) # a"
    using retrieve_with_move_trace by blast
  have g: "\<not> use_c_get (snd ?r)" using Cons.prems by simp
  obtain c where c: "trace (snd (series_loop e u ss (if fst ?r then b else False) (snd ?r)))
                       = trace (snd ?r) @ c"
      and cs: "\<forall>sr \<in> set ss. CallMove u (SeriesInstanceUID sr) \<in> set c"
    using Cons.IH [OF g] by blast
  have "trace (snd (series_loop e u (s # ss) b st))
          = trace st @ (CallMove u (SeriesInstanceUID s) # a @ c)"
    using a c unfolding series_loop_move_step [OF Cons.prems] by simp
  moreover have "\<forall>sr \<in> set (s # ss). CallMove u (SeriesInstanceUID sr)
                    \<in> set (CallMove u (SeriesInstanceUID s) # a @ c)"
    using cs by auto
  ultimately show ?case by blast
qed

lemma retrieve_study_move_calls:
  assumes "\<not> dry_run st" and "\<not> use_c_get st"
  shows "\<forall>sr \<in> set (fst (find_nm_series e u None)).
           CallMove u (SeriesInstanceUID sr) \<in> set (new_events st (snd (retrieve_study e st u)))"
proof (cases "fst (find_nm_series e u None) = []")
  case True
  then show ?thesis by simp
next
  case False
  obtain nm_series fevs where f: "find_nm_series e u None = (nm_series, fevs)"
    by (cases "find_nm_series e u None") auto
  let ?st1 = "emit [Log (FoundSeries (length nm_series))]
               (emit fevs (emit [Log (RetrievingStudy u)] st))"
  have g: "\<not> use_c_get ?st1" using assms by simp
  obtain evs where t: "trace (snd (series_loop e u nm_series True ?st1)) = trace ?st1 @ evs"
      and cs: "\<forall>sr \<in> set nm_series. CallMove u (SeriesInstanceUID sr) \<in> set evs"
    using series_loop_move_calls [OF g] by blast
  have rs: "retrieve_study e st u = series_loop e u nm_series True ?st1"
    using assms False f by (simp add: retrieve_study_def Let_def)
  have "trace (snd (retrieve_study e st u))
          = trace st @ ([Log (RetrievingStudy u)] @ fevs @ [Log (FoundSeries (length nm_series))] @ evs)"
    using t rs by simp
  then have "new_events st (snd (retrieve_study e st u))
          = [Log (RetrievingStudy u)] @ fevs @ [Log (FoundSeries (length nm_series))] @ evs"
    by (rule new_events_append)
  then show ?thesis using cs f by simp
qed


subsection \<open>The dry run, the repair pass and the external tool\<close>





lemma endswith_dcm_name [simp]: "endswith (n @ ''.dcm'') ''.dcm''"
  unfolding endswith_iff by blast

lemma rename_file_dirs: "rename_file F k t = Some t' \<Longrightarrow> dirs t' = dirs t"
  by (auto simp: rename_file_def split: if_splits)

lemma rename_file_keys:
  assumes "rename_file F k t = Some t'"
  shows "file_keys t' = map (\<lambda>k'. if k' = k then dcm_name k else k')
                            (filter (\<lambda>k'. k' \<noteq> dcm_name k) (file_keys t))"
proof -
  have "map fst (map (\<lambda>(k', c). if k' = k then (dcm_name k, c) else (k', c))
                     (filter (\<lambda>(k', c). k' \<noteq> dcm_name k) xs))
        = map (\<lambda>k'. if k' = k then dcm_name k else k')
              (filter (\<lambda>k'. k' \<noteq> dcm_name k) (map fst xs))" for xs :: "(fkey \<times> nat) list"
    by (induction xs) auto
  then show ?thesis using assms
    by (auto simp: rename_file_def file_keys_def split: if_splits)
qed

lemma dcm_name_neq [simp]: "dcm_name k \<noteq> k" "k \<noteq> dcm_name k"
  by (cases k, simp add: dcm_name_def)+

lemma rename_file_key_set:
  assumes "rename_file F k t = Some t'"
  shows "set (file_keys t') = (set (file_keys t) - {k, dcm_name k}) \<union> {dcm_name k}"
proof -
  have k: "k \<in> set (file_keys t)" using assms by (auto simp: rename_file_def split: if_splits)
  show ?thesis
    unfolding rename_file_keys [OF assms] using k by (auto simp: image_iff)
qed

lemma rename_file_None_iff:
  "rename_file F k t = None \<longleftrightarrow>
     F k \<or> k \<notin> set (file_keys t) \<or> fst k @ [snd k @ ''.dcm''] \<in> set (dirs t)"
  by (simp add: rename_file_def)

lemma repair_loop_stuck:
  assumes "\<forall>k \<in> set (file_keys t). \<not> endswith (snd k) ''.dcm'' \<longrightarrow>
             k \<in> set ks \<or> F k \<or> fst k @ [snd k @ ''.dcm''] \<in> set (dirs t)"
  shows "dirs (fst (repair_loop F ks t c evs)) = dirs t
       \<and> (\<forall>k \<in> set (file_keys (fst (repair_loop F ks t c evs))). \<not> endswith (snd k) ''.dcm'' \<longrightarrow>
             F k \<or> fst k @ [snd k @ ''.dcm''] \<in> set (dirs t))"
  using assms
proof (induction ks arbitrary: t c evs)
  case Nil
  then show ?case by simp
next
  case (Cons k ks)
  show ?case
  proof (cases "endswith (snd k) ''.dcm''")
    case True
    have "\<forall>k' \<in> set (file_keys t). \<not> endswith (snd k') ''.dcm'' \<longrightarrow>
             k' \<in> set ks \<or> F k' \<or> fst k' @ [snd k' @ ''.dcm''] \<in> set (dirs t)"
      using Cons.prems True by auto
    from Cons.IH [OF this] True show ?thesis by simp
  next
    case False
    show ?thesis
    proof (cases "rename_file F k t")
      case None
      have "\<forall>k' \<in> set (file_keys t). \<not> endswith (snd k') ''.dcm'' \<longrightarrow>
             k' \<in> set ks \<or> F k' \<or> fst k' @ [snd k' @ ''.dcm''] \<in> set (dirs t)"
        using Cons.prems None by (auto simp: rename_file_None_iff)
      from Cons.IH [OF this] False None show ?thesis by simp
    next
      case (Some t')
      have d: "dirs t' = dirs t" using Some by (rule rename_file_dirs)
      have ks': "set (file_keys t') = (set (file_keys t) - {k, dcm_name k}) \<union> {dcm_name k}"
        using Some by (rule rename_file_key_set)
      have "\<forall>k' \<in> set (file_keys t'). \<not> endswith (snd k') ''.dcm'' \<longrightarrow>
             k' \<in> set ks \<or> F k' \<or> fst k' @ [snd k' @ ''.dcm''] \<in> set (dirs t')"
        using Cons.prems ks' d by (auto simp: dcm_name_def)
      from Cons.IH [OF this] False Some d show ?thesis by simp
    qed
  qed
qed

lemma repair_loop_fixed:
  assumes "\<forall>k \<in> set ks. \<not> endswith (snd k) ''.dcm'' \<longrightarrow> rename_file F k t = None"
  shows "fst (repair_loop F ks t c evs) = t \<and> fst (snd (repair_loop F ks t c evs)) = c"
  using assms by (induction ks arbitrary: evs) auto

lemma repair_pass_twice:
  "fst (repair_pass F (fst (repair_pass F t))) = fst (repair_pass F t)
   \<and> fst (snd (repair_pass F (fst (repair_pass F t)))) = 0"
proof -
  let ?t' = "fst (repair_pass F t)"
  have s: "dirs ?t' = dirs t
       \<and> (\<forall>k \<in> set (file_keys ?t'). \<not> endswith (snd k) ''.dcm'' \<longrightarrow>
             F k \<or> fst k @ [snd k @ ''.dcm''] \<in> set (dirs t))"
    unfolding repair_pass_def by (rule repair_loop_stuck) simp
  then have "\<forall>k \<in> set (file_keys ?t'). \<not> endswith (snd k) ''.dcm'' \<longrightarrow> rename_file F k ?t' = None"
    by (auto simp: rename_file_None_iff)
  from repair_loop_fixed [OF this, of 0 "[]"] show ?thesis
    by (simp add: repair_pass_def)
qed

lemma repair_loop_keys:
  assumes "\<forall>k. \<not> F k"
    and "\<forall>k \<in> set (file_keys t). \<not> endswith (snd k) ''.dcm'' \<longrightarrow>
           fst k @ [snd k @ ''.dcm''] \<notin> set (dirs t)"
  shows "set (file_keys (fst (repair_loop F ks t c evs)))
           = (\<lambda>k. if k \<in> set ks \<and> \<not> endswith (snd k) ''.dcm'' then dcm_name k else k)
               ` set (file_keys t)"
  using assms(2)
proof (induction ks arbitrary: t c evs)
  case Nil
  then show ?case by simp
next
  case (Cons k ks)
  let ?g = "\<lambda>x. if x \<in> set ks \<and> \<not> endswith (snd x) ''.dcm'' then dcm_name x else x"
  let ?g' = "\<lambda>x. if x \<in> set (k # ks) \<and> \<not> endswith (snd x) ''.dcm'' then dcm_name x else x"
  show ?case
  proof (cases "endswith (snd k) ''.dcm''")
    case True
    have "set (file_keys (fst (repair_loop F (k # ks) t c evs)))
            = set (file_keys (fst (repair_loop F ks t c evs)))"
      using True by simp
    also have "\<dots> = ?g ` set (file_keys t)"
      by (rule Cons.IH [OF Cons.prems])
    also have "\<dots> = ?g' ` set (file_keys t)"
      by (intro image_cong) (use True in auto)
    finally show ?thesis .
  next
    case False
    show ?thesis
    proof (cases "rename_file F k t")
      case None
      then have nk: "k \<notin> set (file_keys t)"
        using assms(1) Cons.prems False by (auto simp: rename_file_None_iff)
      have "set (file_keys (fst (repair_loop F (k # ks) t c evs)))
              = set (file_keys (fst (repair_loop F ks t c (evs @ [Log (RenameFailed (fst k) (snd k))]))))"
        using False None by simp
      also have "\<dots> = ?g ` set (file_keys t)"
        by (rule Cons.IH [OF Cons.prems])
      also have "\<dots> = ?g' ` set (file_keys t)"
        by (intro image_cong) (use nk in auto)
      finally show ?thesis .
    next
      case (Some t')
      have kin: "k \<in> set (file_keys t)"
        using Some by (auto simp: rename_file_def split: if_splits)
      have d: "dirs t' = dirs t" using Some by (rule rename_file_dirs)
      have ks': "set (file_keys t') = (set (file_keys t) - {k, dcm_name k}) \<union> {dcm_name k}"
        using Some by (rule rename_file_key_set)
      have tgt: "fst k @ [snd k @ ''.dcm''] \<notin> set (dirs t)"
        using Some by (auto simp: rename_file_def split: if_splits)
      have p: "\<forall>k' \<in> set (file_keys t'). \<not> endswith (snd k') ''.dcm'' \<longrightarrow>
                 fst k' @ [snd k' @ ''.dcm''] \<notin> set (dirs t')"
        using Cons.prems ks' d by (auto simp: dcm_name_def)
      define g where "g = ?g"
      define g' where "g' = ?g'"
      have g1: "g (dcm_name k) = dcm_name k" by (simp add: g_def dcm_name_def)
      have g2: "g' k = dcm_name k" using False by (simp add: g'_def)
      have g3: "g' (dcm_name k) = dcm_name k" by (simp add: g'_def dcm_name_def)
      have g4: "x \<noteq> k \<Longrightarrow> g x = g' x" for x by (simp add: g_def g'_def)
      have "set (file_keys (fst (repair_loop F (k # ks) t c evs)))
              = set (file_keys (fst (repair_loop F ks t' (c + 1) (evs @ [Renamed (fst k) (snd k)]))))"
        using False Some by simp
      also have "\<dots> = g ` set (file_keys t')"
        unfolding g_def by (rule Cons.IH [OF p])
      also have "\<dots> = g' ` set (file_keys t)"
      proof (rule set_eqI)
        fix y
        show "y \<in> g ` set (file_keys t') \<longleftrightarrow> y \<in> g' ` set (file_keys t)"
        proof
          assume "y \<in> g ` set (file_keys t')"
          then obtain x where x: "x \<in> set (file_keys t')" "y = g x" by blast
          show "y \<in> g' ` set (file_keys t)"
          proof (cases "x = dcm_name k")
            case True
            then have "y = g' k" using x g1 g2 by simp
            then show ?thesis using kin by blast
          next
            case False
            then have "x \<in> set (file_keys t)" "x \<noteq> k" using x(1) ks' by auto
            then show ?thesis using x(2) g4 by auto
          qed
        next
          assume "y \<in> g' ` set (file_keys t)"
          then obtain x where x: "x \<in> set (file_keys t)" "y = g' x" by blast
          show "y \<in> g ` set (file_keys t')"
          proof (cases "x = k \<or> x = dcm_name k")
            case True
            then have "y = g (dcm_name k)" using x g1 g2 g3 by auto
            moreover have "dcm_name k \<in> set (file_keys t')" using ks' by simp
            ultimately show ?thesis by blast
          next
            case False
            then have "x \<in> set (file_keys t')" using x(1) ks' by simp
            moreover have "y = g x" using False x(2) g4 by simp
            ultimately show ?thesis by blast
          qed
        qed
      qed
      finally show ?thesis unfolding g'_def .
    qed
  qed
qed

lemma retrieve_with_get_flags [simp]:
  "dry_run (snd (retrieve_with_get e st u s)) = dry_run st"
  "use_c_get (snd (retrieve_with_get e st u s)) = use_c_get st"
  by (auto simp: retrieve_with_get_def Let_def split: tool_outcome.splits prod.splits)

lemma retrieve_with_get_completed:
  assumes "getscu_found e" and "getscu_run e u s = Completed 0 out stored"
  shows "fst (retrieve_with_get e st u s)
       \<and> image_count (snd (retrieve_with_get e st u s))
           = image_count st + (if 0 < parse_completed out then parse_completed out else 0)
       \<and> outdir (snd (retrieve_with_get e st u s))
           = fst (repair_pass (rename_fails e) (tool_stores stored (outdir st)))"
  using assms by (auto simp: retrieve_with_get_def Let_def split: prod.splits)

lemma retrieve_with_get_count_le:
  assumes "\<forall>rc out stored. getscu_run e u s = Completed rc out stored \<longrightarrow> parse_completed out \<le> 0"
  shows "image_count (snd (retrieve_with_get e st u s)) = image_count st"
  using assms
  by (auto simp: retrieve_with_get_def Let_def split: tool_outcome.splits prod.splits)

lemma series_loop_get_count:
  assumes "\<forall>u s rc out stored. getscu_run e u s = Completed rc out stored \<longrightarrow> parse_completed out \<le> 0"
    and "use_c_get st"
  shows "image_count (snd (series_loop e u ss b st)) = image_count st
       \<and> use_c_get (snd (series_loop e u ss b st)) \<and> dry_run (snd (series_loop e u ss b st)) = dry_run st"
  using assms(2)
proof (induction ss arbitrary: b st)
  case Nil
  then show ?case by simp
next
  case (Cons s ss)
  let ?r = "retrieve_with_get e st u (SeriesInstanceUID s)"
  have step: "series_loop e u (s # ss) b st
                = series_loop e u ss (if fst ?r then b else False) (snd ?r)"
    using Cons.prems by (simp split: prod.splits)
  have c: "image_count (snd ?r) = image_count st"
    using assms(1) by (intro retrieve_with_get_count_le) blast
  have g: "use_c_get (snd ?r)" using Cons.prems by simp
  show ?case
    unfolding step using Cons.IH [OF g, of "if fst ?r then b else False"] c by simp
qed

lemma retrieve_study_get_count:
  assumes "\<forall>u s rc out stored. getscu_run e u s = Completed rc out stored \<longrightarrow> parse_completed out \<le> 0"
    and "use_c_get st"
  shows "image_count (snd (retrieve_study e st u)) = image_count st
       \<and> use_c_get (snd (retrieve_study e st u)) \<and> dry_run (snd (retrieve_study e st u)) = dry_run st"
proof (cases "dry_run st")
  case True
  then show ?thesis using assms(2) by (simp add: retrieve_study_def Let_def)
next
  case False
  obtain nm_series fevs where f: "find_nm_series e u None = (nm_series, fevs)"
    by (cases "find_nm_series e u None") auto
  show ?thesis
  proof (cases "nm_series = []")
    case True
    then show ?thesis using False f assms(2) by (simp add: retrieve_study_def Let_def)
  next
    case ne: False
    let ?st1 = "emit [Log (FoundSeries (length nm_series))] (emit fevs (emit [Log (RetrievingStudy u)] st))"
    have g: "use_c_get ?st1" using assms(2) by simp
    have "retrieve_study e st u = series_loop e u nm_series True ?st1"
      using False f ne by (simp add: retrieve_study_def Let_def)
    then show ?thesis
      using series_loop_get_count [OF assms(1) g, of u nm_series True] by simp
  qed
qed

lemma study_loop_get_no_limit:
  assumes "\<forall>u s rc out stored. getscu_run e u s = Completed rc out stored \<longrightarrow> parse_completed out \<le> 0"
    and "use_c_get st" and "image_count st < m"
  shows "study_loop e (Some m) n i ss st = study_loop e None n i ss st
       \<and> image_count (study_loop e (Some m) n i ss st) = image_count st"
  using assms(2,3)
proof (induction ss arbitrary: i st)
  case Nil
  then show ?case by simp
next
  case (Cons s ss)
  let ?st2 = "snd (retrieve_study e (emit [Log (ProcessingStudy i n (StudyInstanceUID s))] st)
                     (StudyInstanceUID s))"
  have g0: "use_c_get (emit [Log (ProcessingStudy i n (StudyInstanceUID s))] st)"
    using Cons.prems by simp
  have c: "image_count ?st2 = image_count st" and g: "use_c_get ?st2"
    using retrieve_study_get_count [OF assms(1) g0, of "StudyInstanceUID s"] by simp_all
  have lt: "image_count ?st2 < m" using c Cons.prems by simp
  have s1: "study_loop e (Some m) n i (s # ss) st = study_loop e (Some m) n (i + 1) ss ?st2"
    using lt by (simp add: Let_def int_truthy_def)
  have s2: "study_loop e None n i (s # ss) st = study_loop e None n (i + 1) ss ?st2"
    by (simp add: Let_def int_truthy_def)
  have a: "study_loop e (Some m) n (i + 1) ss ?st2 = study_loop e None n (i + 1) ss ?st2"
    using Cons.IH [OF g lt, of "i + 1"] by (rule conjunct1)
  have b: "image_count (study_loop e (Some m) n (i + 1) ss ?st2) = image_count ?st2"
    using Cons.IH [OF g lt, of "i + 1"] by (rule conjunct2)
  show ?case
    unfolding s1 s2 using a b c by (simp only:)
qed

lemma completed_of_line_unparsed:
  assumes "contains_str ''Completed Suboperations'' line \<longrightarrow>
             (case split_on (CHR '':'') line of a # p # r \<Rightarrow> py_int (strip p) = None | _ \<Rightarrow> True)"
  shows "completed_of_line c line = c"
  using assms by (auto simp: completed_of_line_def split: list.splits option.splits)

lemma parse_completed_unparsed:
  assumes "\<forall>line \<in> set (split_on (CHR 0x0A) out).
             contains_str ''Completed Suboperations'' line \<longrightarrow>
             (case split_on (CHR '':'') line of a # p # r \<Rightarrow> py_int (strip p) = None | _ \<Rightarrow> True)"
  shows "parse_completed out = 0"
proof -
  have "foldl completed_of_line c ls = c"
    if "\<forall>line \<in> set ls. completed_of_line c line = c" for c ls
    using that by (induction ls) simp_all
  then show ?thesis
    using assms completed_of_line_unparsed by (simp add: parse_completed_def)
qed

subsection \<open>Date-range resolution\<close>

text \<open>
  C7. Date-range resolution follows the three-way case split. When a from-bound or a
  to-bound is given (a non-empty option value), the result is the range string
  \<open>from-to\<close> with \<open>19700101\<close> or \<open>29991231\<close> standing in for the side that is
  missing; so a lone from-bound \<open>20210101\<close> gives \<open>20210101-29991231\<close> and a lone
  to-bound \<open>20211231\<close> gives \<open>19700101-20211231\<close>. Otherwise, when a single exact date
  is given, it is returned verbatim. Otherwise the result is the window from thirty days
  before the current day to the current day, read from the clock at the call.
\<close>

theorem resolveDateRange_cases:
  "(truthy_str (from_date a) \<or> truthy_str (to_date a) \<longrightarrow>
      resolveDateRange c a =
        str_or (from_date a) ''19700101'' @ ''-'' @ str_or (to_date a) ''29991231'')
   \<and> (\<not> truthy_str (from_date a) \<and> \<not> truthy_str (to_date a) \<and> study_date a = Some s \<and> s \<noteq> [] \<longrightarrow>
      resolveDateRange c a = s)
   \<and> (\<not> truthy_str (from_date a) \<and> \<not> truthy_str (to_date a) \<and> \<not> truthy_str (study_date a) \<longrightarrow>
      resolveDateRange c a = strftime_Ymd c (today c - 30) @ ''-'' @ strftime_Ymd c (today c))
   \<and> resolveDateRange c \<lparr>study_date = None, from_date = Some ''20210101'', to_date = None\<rparr>
        = ''20210101-29991231''
   \<and> resolveDateRange c \<lparr>study_date = None, from_date = None, to_date = Some ''20211231''\<rparr>
        = ''19700101-20211231''"
  by (simp add: resolveDateRange_def query_study_date_def main_study_date_def
        truthy_str_def str_or_def split: option.splits)

theorem resolveDateRange_cases_witness:
  "truthy_str (from_date \<lparr>study_date = Some ''20210901'', from_date = Some ''20210101'', to_date = Some ''20211231''\<rparr>)
   \<and> resolveDateRange clock_20261104
        \<lparr>study_date = Some ''20210901'', from_date = Some ''20210101'', to_date = Some ''20211231''\<rparr>
        = ''20210101-20211231''
   \<and> resolveDateRange clock_20261104 \<lparr>study_date = Some ''20210901'', from_date = None, to_date = None\<rparr>
        = ''20210901''
   \<and> resolveDateRange clock_20261104 \<lparr>study_date = None, from_date = None, to_date = None\<rparr>
        = ''20261005-20261104''"
proof -
  let ?a1 = "\<lparr>study_date = Some ''20210901'', from_date = Some ''20210101'', to_date = Some ''20211231''\<rparr>"
  let ?a2 = "\<lparr>study_date = Some ''20210901'', from_date = None, to_date = None\<rparr>"
  let ?a3 = "\<lparr>study_date = None, from_date = None, to_date = None\<rparr>"
  have h1: "truthy_str (from_date ?a1)"
    by (simp add: truthy_str_def)
  have h2: "\<not> truthy_str (from_date ?a2) \<and> \<not> truthy_str (to_date ?a2)
            \<and> study_date ?a2 = Some ''20210901'' \<and> ''20210901'' \<noteq> []"
    by (simp add: truthy_str_def)
  have h3: "\<not> truthy_str (from_date ?a3) \<and> \<not> truthy_str (to_date ?a3) \<and> \<not> truthy_str (study_date ?a3)"
    by (simp add: truthy_str_def)
  have r1: "resolveDateRange clock_20261104 ?a1
              = str_or (from_date ?a1) ''19700101'' @ ''-'' @ str_or (to_date ?a1) ''29991231''"
    using resolveDateRange_cases [of ?a1 clock_20261104 "''x''"] h1 by blast
  have r2: "resolveDateRange clock_20261104 ?a2 = ''20210901''"
    using resolveDateRange_cases [of ?a2 clock_20261104 "''20210901''"] h2 by blast
  have r3: "resolveDateRange clock_20261104 ?a3
              = strftime_Ymd clock_20261104 (today clock_20261104 - 30) @ ''-''
                @ strftime_Ymd clock_20261104 (today clock_20261104)"
    using resolveDateRange_cases [of ?a3 clock_20261104 "''x''"] h3 by blast
  show ?thesis
    using h1 r1 r2 r3 by (simp add: str_or_def clock_20261104_def)
qed

subsection \<open>The modality filter and the study limit\<close>

text \<open>
  C5. The modality filter keeps a study exactly when its modalities attribute is present
  and its text contains \<open>NM\<close> as a substring. For a find whose responses arrive
  without an exception and with no study limit, a study is returned exactly when it was
  discovered and passes that test. A record with the modalities CT and NM is kept (as
  the list of the two values and as the raw text with the backslash); one with CT and MR
  is dropped; one without the attribute is dropped.
\<close>

theorem modality_filter:
  "(has_nm s \<longleftrightarrow> (\<exists>m a b. ModalitiesInStudy s = Some m \<and> py_str m = a @ ''NM'' @ b))
   \<and> (study_find e (query_study_date (env_clock e) sd) = Established rs \<and> Boom \<notin> set rs \<longrightarrow>
        (s \<in> set (fst (find_nm_studies e None sd)) \<longleftrightarrow>
           s \<in> set (discovered rs) \<and> (\<exists>m a b. ModalitiesInStudy s = Some m \<and> py_str m = a @ ''NM'' @ b)))
   \<and> has_nm \<lparr>StudyInstanceUID = u, ModalitiesInStudy = Some (Multi [''CT'', ''NM'']),
              NumberOfStudyRelatedInstances = n\<rparr>
   \<and> has_nm \<lparr>StudyInstanceUID = u, ModalitiesInStudy = Some (Single (''CT'' @ [CHR 0x5C] @ ''NM'')),
              NumberOfStudyRelatedInstances = n\<rparr>
   \<and> \<not> has_nm \<lparr>StudyInstanceUID = u, ModalitiesInStudy = Some (Multi [''CT'', ''MR'']),
                NumberOfStudyRelatedInstances = n\<rparr>
   \<and> \<not> has_nm \<lparr>StudyInstanceUID = u, ModalitiesInStudy = Some (Single (''CT'' @ [CHR 0x5C] @ ''MR'')),
                NumberOfStudyRelatedInstances = n\<rparr>
   \<and> \<not> has_nm \<lparr>StudyInstanceUID = u, ModalitiesInStudy = None, NumberOfStudyRelatedInstances = n\<rparr>"
proof -
  have filt: "fst (find_nm_studies e None sd) = filter has_nm (discovered rs)"
    if "study_find e (query_study_date (env_clock e) sd) = Established rs" "Boom \<notin> set rs"
    using that
    by (simp add: find_nm_studies_def Let_def collect_studies_discovered filter_nm_no_limit
          int_truthy_def)
  have ex: "has_nm \<lparr>StudyInstanceUID = u, ModalitiesInStudy = Some (Multi [''CT'', ''NM'']),
              NumberOfStudyRelatedInstances = n\<rparr>
   \<and> has_nm \<lparr>StudyInstanceUID = u, ModalitiesInStudy = Some (Single (''CT'' @ [CHR 0x5C] @ ''NM'')),
              NumberOfStudyRelatedInstances = n\<rparr>
   \<and> \<not> has_nm \<lparr>StudyInstanceUID = u, ModalitiesInStudy = Some (Multi [''CT'', ''MR'']),
                NumberOfStudyRelatedInstances = n\<rparr>
   \<and> \<not> has_nm \<lparr>StudyInstanceUID = u, ModalitiesInStudy = Some (Single (''CT'' @ [CHR 0x5C] @ ''MR'')),
                NumberOfStudyRelatedInstances = n\<rparr>
   \<and> \<not> has_nm \<lparr>StudyInstanceUID = u, ModalitiesInStudy = None, NumberOfStudyRelatedInstances = n\<rparr>"
    by (simp add: has_nm_def quoted_def)
  show ?thesis
    using filt ex has_nm_iff [of s] by auto
qed

theorem modality_filter_witness:
  "study_find (idle_env\<lparr>study_find := (\<lambda>d. Established
       [pending (nm_study ''A''),
        pending \<lparr>StudyInstanceUID = ''X'', ModalitiesInStudy = Some (Multi [''CT'', ''MR'']),
                 NumberOfStudyRelatedInstances = None\<rparr>])\<rparr>)
     (query_study_date (env_clock idle_env) None)
     = Established
       [pending (nm_study ''A''),
        pending \<lparr>StudyInstanceUID = ''X'', ModalitiesInStudy = Some (Multi [''CT'', ''MR'']),
                 NumberOfStudyRelatedInstances = None\<rparr>]
   \<and> nm_study ''A'' \<in> set (fst (find_nm_studies
        (idle_env\<lparr>study_find := (\<lambda>d. Established
           [pending (nm_study ''A''),
            pending \<lparr>StudyInstanceUID = ''X'', ModalitiesInStudy = Some (Multi [''CT'', ''MR'']),
                     NumberOfStudyRelatedInstances = None\<rparr>])\<rparr>) None None))
   \<and> \<lparr>StudyInstanceUID = ''X'', ModalitiesInStudy = Some (Multi [''CT'', ''MR'']),
        NumberOfStudyRelatedInstances = None\<rparr>
       \<notin> set (fst (find_nm_studies
        (idle_env\<lparr>study_find := (\<lambda>d. Established
           [pending (nm_study ''A''),
            pending \<lparr>StudyInstanceUID = ''X'', ModalitiesInStudy = Some (Multi [''CT'', ''MR'']),
                     NumberOfStudyRelatedInstances = None\<rparr>])\<rparr>) None None))"
proof -
  let ?x = "\<lparr>StudyInstanceUID = ''X'', ModalitiesInStudy = Some (Multi [''CT'', ''MR'']),
             NumberOfStudyRelatedInstances = None\<rparr>"
  let ?rs = "[pending (nm_study ''A''), pending ?x]"
  let ?e = "idle_env\<lparr>study_find := (\<lambda>d. Established ?rs)\<rparr>"
  have h1: "study_find ?e (query_study_date (env_clock ?e) None) = Established ?rs" by simp
  have h2: "Boom \<notin> set ?rs" by (simp add: pending_def)
  have d: "discovered ?rs = [nm_study ''A'', ?x]"
    by (simp add: pending_def is_pending_def)
  have a: "has_nm (nm_study ''A'')"
    by (simp add: has_nm_def nm_study_def quoted_def)
  have x: "\<not> has_nm ?x"
    by (simp add: has_nm_def quoted_def)
  have ra: "nm_study ''A'' \<in> set (fst (find_nm_studies ?e None None))"
    using modality_filter [of "nm_study ''A''" ?e None ?rs] h1 h2 a d by simp
  have rx: "?x \<notin> set (fst (find_nm_studies ?e None None))"
    using modality_filter [of ?x ?e None ?rs] h1 h2 x d by simp
  show ?thesis using h1 ra rx by simp
qed

text \<open>
  C6. For a find whose responses arrive without an exception and a positive study limit
  \<open>n\<close>, the studies returned are exactly the first \<open>n\<close> discovered studies that pass
  the modality filter, in the order of discovery. With the limit 2 and the five matching
  studies A, B, C, D, E discovered in that order, the result is A, B.
\<close>

theorem study_limit:
  assumes "study_find e (query_study_date (env_clock e) sd) = Established rs"
    and "Boom \<notin> set rs" and "0 < n"
  shows "fst (find_nm_studies e (Some n) sd) = take (nat n) (filter has_nm (discovered rs))"
proof (cases "discovered rs = []")
  case True
  then show ?thesis using assms
    by (simp add: find_nm_studies_def Let_def collect_studies_discovered)
next
  case False
  have "filter_nm (Some n) (discovered rs) [] = take (nat n) ([] @ filter has_nm (discovered rs))"
    using assms(3) by (intro filter_nm_limit) auto
  then show ?thesis using assms False
    by (simp add: find_nm_studies_def Let_def collect_studies_discovered int_truthy_def py_take_take)
qed

theorem study_limit_witness:
  "fst (find_nm_studies
          (idle_env\<lparr>study_find := (\<lambda>d. Established
             [pending (nm_study ''A''), pending (nm_study ''B''), pending (nm_study ''C''),
              pending (nm_study ''D''), pending (nm_study ''E'')])\<rparr>)
          (Some 2) None)
     = [nm_study ''A'', nm_study ''B'']"
proof -
  let ?rs = "[pending (nm_study ''A''), pending (nm_study ''B''), pending (nm_study ''C''),
              pending (nm_study ''D''), pending (nm_study ''E'')]"
  let ?e = "idle_env\<lparr>study_find := (\<lambda>d. Established ?rs)\<rparr>"
  have h1: "study_find ?e (query_study_date (env_clock ?e) None) = Established ?rs" by simp
  have h2: "Boom \<notin> set ?rs" by (simp add: pending_def)
  have h3: "(0::int) < 2" by simp
  have d: "discovered ?rs = [nm_study ''A'', nm_study ''B'', nm_study ''C'', nm_study ''D'', nm_study ''E'']"
    by (simp add: pending_def is_pending_def)
  have nm: "has_nm (nm_study u)" for u
    by (simp add: has_nm_def nm_study_def quoted_def)
  show ?thesis
    using study_limit [OF h1 h2 h3] by (simp add: d nm)
qed

subsection \<open>Release of the association\<close>




subsection \<open>Status codes of the move\<close>

text \<open>
  C3, as the code has it. The call for one series with the move strategy reports success
  exactly when the listener started, the association was established and reading the
  statuses raised no exception; the status codes play no part in the result. A status
  among \<open>0xA701\<close>, \<open>0xA702\<close>, \<open>0xA900\<close>, \<open>0xC000\<close> is logged as a warning and
  the call still reports success. Whatever the calls report, \<^verbatim>\<open>retrieve_study\<close> goes
  on to every series the find returned.
\<close>

theorem move_status_only_logged:
  "(fst (retrieve_with_move e st u s) \<longleftrightarrow>
      scp_start e u s = Started \<and> (\<exists>rs. move_assoc e u s = Established rs \<and> Boom \<notin> set rs))
   \<and> (scp_start e u s = Started \<and> move_assoc e u s = Established rs \<and> Boom \<notin> set rs
        \<and> Response (Some c) i \<in> set rs \<and> (c = 0xA701 \<or> c = 0xA702 \<or> c = 0xA900 \<or> c = 0xC000) \<longrightarrow>
          fst (retrieve_with_move e st u s)
          \<and> Log (MoveStatusWarning c) \<in> set (new_events st (snd (retrieve_with_move e st u s))))
   \<and> (\<not> dry_run st \<and> \<not> use_c_get st \<longrightarrow>
        (\<forall>sr \<in> set (fst (find_nm_series e u None)).
           CallMove u (SeriesInstanceUID sr) \<in> set (new_events st (snd (retrieve_study e st u)))))"
proof -
  have w: "fst (retrieve_with_move e st u s)
          \<and> Log (MoveStatusWarning c) \<in> set (new_events st (snd (retrieve_with_move e st u s)))"
    if h: "scp_start e u s = Started" "move_assoc e u s = Established rs" "Boom \<notin> set rs"
      "Response (Some c) i \<in> set rs" "c = 0xA701 \<or> c = 0xA702 \<or> c = 0xA900 \<or> c = 0xC000"
  proof -
    let ?st0 = "emit [CallMove u s, ListenerStarted, Associated, CMove u s] st"
    obtain a where a: "trace (store_all (deliveries e u s) ?st0) = trace ?st0 @ a"
      using store_all_trace by blast
    have "trace (snd (retrieve_with_move e st u s))
            = trace st @ ([CallMove u s, ListenerStarted, Associated, CMove u s] @ a
                @ fst (move_statuses rs []) @ [Released, ListenerStopped])"
      using a h(3) by (simp add: retrieve_with_move_started [OF h(1) h(2)])
    then have "new_events st (snd (retrieve_with_move e st u s))
            = [CallMove u s, ListenerStarted, Associated, CMove u s] @ a
                @ fst (move_statuses rs []) @ [Released, ListenerStopped]"
      by (rule new_events_append)
    then show ?thesis
      using move_statuses_warning [OF h(3) h(4) h(5), of "[]"] h(3)
      by (simp add: retrieve_with_move_started [OF h(1) h(2)])
  qed
  show ?thesis
    using retrieve_with_move_result [of e st u s] w retrieve_study_move_calls [of st e u]
    by blast
qed

theorem move_status_only_logged_witness:
  "fst (retrieve_with_move failing_move_env (init False False) ''A'' ''1.2.3'')
   \<and> Log (MoveStatusWarning 0xC000)
        \<in> set (new_events (init False False)
                 (snd (retrieve_with_move failing_move_env (init False False) ''A'' ''1.2.3'')))
   \<and> CallMove ''A'' ''1.2.3''
        \<in> set (new_events (init False False) (snd (retrieve_study failing_move_env (init False False) ''A'')))
   \<and> CallMove ''A'' ''1.2.4''
        \<in> set (new_events (init False False) (snd (retrieve_study failing_move_env (init False False) ''A'')))"
proof -
  let ?rs = "[Response (Some 0xC000) None] :: unit response list"
  have h1: "scp_start failing_move_env ''A'' ''1.2.3'' = Started"
    by (simp add: failing_move_env_def)
  have h2: "move_assoc failing_move_env ''A'' ''1.2.3'' = Established ?rs"
    by (simp add: failing_move_env_def)
  have h3: "Boom \<notin> set ?rs" "Response (Some 0xC000) None \<in> set ?rs" by simp_all
  have h4: "\<not> dry_run (init False False)" "\<not> use_c_get (init False False)"
    by (simp_all add: init_def)
  have f: "fst (find_nm_series failing_move_env ''A'' None) = [series_1, series_2]"
    by (simp add: find_nm_series_def failing_move_env_def answering_env_def idle_env_def
          pending_def is_pending_def int_truthy_def)
  have u: "SeriesInstanceUID series_1 = ''1.2.3''" "SeriesInstanceUID series_2 = ''1.2.4''"
    by (simp_all add: series_1_def series_2_def)
  show ?thesis
    using move_status_only_logged
            [of failing_move_env "init False False" "''A''" "''1.2.3''" ?rs "0xC000" None]
      h1 h2 h3 h4 f u
    by auto
qed

text \<open>
  C3 as stated fails: the move is answered with the failure status \<open>0xC000\<close> and the
  call reports success.
\<close>

theorem move_failure_status_counterexample:
  "fst (retrieve_with_move failing_move_env (init False False) ''A'' ''1.2.3'')
   \<and> move_assoc failing_move_env ''A'' ''1.2.3'' = Established [Response (Some 0xC000) None]"
  by (simp add: retrieve_with_move_def failing_move_env_def answering_env_def idle_env_def Let_def)

subsection \<open>The destination path of a stored object\<close>

text \<open>
  C4, as the code has it. Sanitizing keeps only alphanumerics, \<open>-\<close> and \<open>_\<close>, and
  turns \<open>AB/12*ID\<close> into \<open>AB12ID\<close>. The store callback sanitizes the patient
  identifier (\<open>UNKNOWN\<close> when the attribute is absent), which therefore is one
  directory name under the output directory, or none when nothing of it survives. The
  study UID and the series UID are then joined as paths, and the file is named by the
  instance UID as received (\<open>UNKNOWN\<close> when absent) with \<open>.dcm\<close> appended. A
  successful store creates the directory and writes the file at that path; for
  identifiers that are directory names as they are, the file lies three levels below
  the output directory. In dry-run mode the path is logged and nothing is written.
\<close>

theorem store_path_segments:
  "(\<forall>c \<in> set (sanitize s). isalnum c \<or> c = CHR ''-'' \<or> c = CHR ''_'')
   \<and> sanitize ''AB/12*ID'' = ''AB12ID''
   \<and> attr_or_unknown None = ''UNKNOWN'' \<and> attr_or_unknown (Some v) = v
   \<and> patient_id_of ds = sanitize (attr_or_unknown (PatientID ds))
   \<and> filename ds = attr_or_unknown (SOPInstanceUID ds) @ ''.dcm''
   \<and> save_dir root ds
       = joinpath (joinpath (root @ (if patient_id_of ds = [] then [] else [patient_id_of ds]))
                     (attr_or_unknown (obj_StudyInstanceUID ds)))
           (attr_or_unknown (obj_SeriesInstanceUID ds))
   \<and> (CHR ''/'' \<notin> set (filename ds) \<longrightarrow> filepath root ds = save_dir root ds @ [filename ds])
   \<and> (\<not> dry_run st \<and> fst (handle_store st x) = Some 0 \<longrightarrow>
        new_events st (snd (handle_store st x))
          = [MkDirs (save_dir (output_dir st) (obj x)), Saved (filepath (output_dir st) (obj x)),
             Log (StoredImage (image_count st + 1))])
   \<and> (\<not> dry_run st \<and> fst (handle_store st x) = Some 0 \<and> ''..'' \<notin> set (output_dir st)
       \<and> patient_id_of (obj x) \<noteq> [] \<and> plain_name (study_uid_of (obj x))
       \<and> plain_name (series_uid_of (obj x)) \<and> CHR ''/'' \<notin> set (filename (obj x)) \<longrightarrow>
        filepath (output_dir st) (obj x)
          = output_dir st @ [patient_id_of (obj x), study_uid_of (obj x), series_uid_of (obj x), filename (obj x)]
        \<and> (([patient_id_of (obj x), study_uid_of (obj x), series_uid_of (obj x)], filename (obj x)),
            payload (obj x)) \<in> set (files (outdir (snd (handle_store st x))))
        \<and> [patient_id_of (obj x), study_uid_of (obj x), series_uid_of (obj x)]
            \<in> set (dirs (outdir (snd (handle_store st x)))))
   \<and> (dry_run st \<longrightarrow>
        new_events st (snd (handle_store st x))
          = [Log (WouldStore (image_count st + 1)
                (patient_id_of (obj x) @ ''/'' @ study_uid_of (obj x) @ ''/'' @ series_uid_of (obj x)
                   @ ''/'' @ filename (obj x)))]
        \<and> outdir (snd (handle_store st x)) = outdir st)"
proof -
  have a: "\<forall>c \<in> set (sanitize s). isalnum c \<or> c = CHR ''-'' \<or> c = CHR ''_''"
    by (auto simp: sanitize_def)
  have b: "sanitize ''AB/12*ID'' = ''AB12ID''"
    by (simp add: sanitize_def isalnum_def)
  have u: "attr_or_unknown None = ''UNKNOWN''" "attr_or_unknown (Some v) = v"
    by (simp_all add: attr_or_unknown_def)
  have p: "patient_id_of ds = sanitize (attr_or_unknown (PatientID ds))"
    by (simp add: patient_id_of_def)
  have fn: "filename ds = attr_or_unknown (SOPInstanceUID ds) @ ''.dcm''"
    by (simp add: filename_def sop_uid_of_def)
  have pj: "joinpath r (patient_id_of d) = r @ (if patient_id_of d = [] then [] else [patient_id_of d])"
    for r d
    using joinpath_name [of "patient_id_of d" r] sanitize_no_slash [of "attr_or_unknown (PatientID d)"]
    by (simp add: patient_id_of_def)
  have sd: "save_dir root ds
       = joinpath (joinpath (root @ (if patient_id_of ds = [] then [] else [patient_id_of ds]))
                     (attr_or_unknown (obj_StudyInstanceUID ds)))
           (attr_or_unknown (obj_SeriesInstanceUID ds))"
    unfolding save_dir_def pj by (simp add: study_uid_of_def series_uid_of_def)
  have fnn: "filename d \<noteq> []" "filename d \<noteq> ''.''" "filename d \<noteq> ''..''" for d
    by (auto simp: filename_def)
  have fp: "filepath r d = save_dir r d @ [filename d]" if "CHR ''/'' \<notin> set (filename d)" for r d
    using joinpath_name [OF that, of "save_dir r d"] fnn [of d] by (simp add: filepath_def)
  have ev: "new_events st (snd (handle_store st x))
          = [MkDirs (save_dir (output_dir st) (obj x)), Saved (filepath (output_dir st) (obj x)),
             Log (StoredImage (image_count st + 1))]"
    if "\<not> dry_run st" "fst (handle_store st x) = Some 0"
    using handle_store_success [OF that] by (auto simp: new_events_def)
  have tr: "filepath (output_dir st) (obj x)
          = output_dir st @ [patient_id_of (obj x), study_uid_of (obj x), series_uid_of (obj x), filename (obj x)]
        \<and> (([patient_id_of (obj x), study_uid_of (obj x), series_uid_of (obj x)], filename (obj x)),
            payload (obj x)) \<in> set (files (outdir (snd (handle_store st x))))
        \<and> [patient_id_of (obj x), study_uid_of (obj x), series_uid_of (obj x)]
            \<in> set (dirs (outdir (snd (handle_store st x))))"
    if h: "\<not> dry_run st" "fst (handle_store st x) = Some 0" "''..'' \<notin> set (output_dir st)"
      "patient_id_of (obj x) \<noteq> []" "plain_name (study_uid_of (obj x))"
      "plain_name (series_uid_of (obj x))" "CHR ''/'' \<notin> set (filename (obj x))"
  proof -
    let ?r = "output_dir st"
    let ?ns = "[patient_id_of (obj x), study_uid_of (obj x), series_uid_of (obj x)]"
    have s1: "save_dir ?r (obj x) = ?r @ ?ns"
      unfolding save_dir_def pj
      using h(4,5,6) by (simp add: joinpath_name plain_name_def)
    have s2: "filepath ?r (obj x) = ?r @ ?ns @ [filename (obj x)]"
      using fp [OF h(7), of ?r] s1 by simp
    obtain t1 t2 where t:
        "mkdir_parents ?r (?r @ ?ns) (outdir st) = (True, t1)"
        "open_write ?r (?r @ ?ns @ [filename (obj x)]) (payload (obj x)) t1 = Some t2"
        "outdir (snd (handle_store st x)) = t2"
      using handle_store_success [OF h(1,2)] unfolding s1 s2 by blast
    have nn: "''..'' \<notin> set ?ns"
      using h(5,6) sanitize_no_slash(3) [of "attr_or_unknown (PatientID (obj x))"]
      by (auto simp: plain_name_def patient_id_of_def)
    have st: "((?ns, filename (obj x)), payload (obj x)) \<in> set (files t2)
        \<and> (\<forall>k. 0 < k \<and> k \<le> length ?ns \<longrightarrow> take k ?ns \<in> set (dirs t2))"
      using store_tree [OF t(1) t(2) h(3) nn fnn(3)] .
    have "take 3 ?ns \<in> set (dirs t2)"
      using st by (intro conjunct2 [OF st, rule_format]) simp
    then show ?thesis using s2 st t(3) by simp
  qed
  have d: "new_events st (snd (handle_store st x))
          = [Log (WouldStore (image_count st + 1)
                (patient_id_of (obj x) @ ''/'' @ study_uid_of (obj x) @ ''/'' @ series_uid_of (obj x)
                   @ ''/'' @ filename (obj x)))]
        \<and> outdir (snd (handle_store st x)) = outdir st"
    if "dry_run st"
    using that
    by (simp add: handle_store_def Let_def new_events_def emit_def would_store_text_def filename_def)
  show ?thesis
    using a b u p fn sd fp [of ds root] ev tr d by blast
qed

theorem store_path_segments_witness:
  "\<not> dry_run (init False False) \<and> fst (handle_store (init False False) dotted) = Some 0
   \<and> new_events (init False False) (snd (handle_store (init False False) dotted))
       = [MkDirs [''data'', ''nm_images'', ''AB12ID'', ''1.2.840'', ''1.2.840.5''],
          Saved [''data'', ''nm_images'', ''AB12ID'', ''1.2.840'', ''1.2.840.5'', ''1.2.840.5.1.dcm''],
          Log (StoredImage 1)]
   \<and> (([''AB12ID'', ''1.2.840'', ''1.2.840.5''], ''1.2.840.5.1.dcm''), 7)
        \<in> set (files (outdir (snd (handle_store (init False False) dotted))))
   \<and> [''AB12ID'', ''1.2.840'', ''1.2.840.5'']
        \<in> set (dirs (outdir (snd (handle_store (init False False) dotted))))
   \<and> save_dir [''data''] bare = [''data'', ''UNKNOWN'', ''UNKNOWN'', ''UNKNOWN'']
   \<and> filepath [''data''] bare = [''data'', ''UNKNOWN'', ''UNKNOWN'', ''UNKNOWN'', ''UNKNOWN.dcm'']
   \<and> dry_run (init True False)
   \<and> new_events (init True False) (snd (handle_store (init True False) dotted))
        = [Log (WouldStore 1 ''AB12ID/1.2.840/1.2.840.5/1.2.840.5.1.dcm'')]
   \<and> sanitize ''AB/12*ID'' = ''AB12ID''"
proof -
  let ?st = "init False False"
  have h: "\<not> dry_run ?st" "dry_run (init True False)"
      "image_count (init True False) = 0" "image_count ?st = 0"
      "output_dir ?st = [''data'', ''nm_images'']"
    by (simp_all add: init_def)
  have r: "fst (handle_store ?st dotted) = Some 0"
    by (simp add: handle_store_def Let_def init_def dotted_def mkdir_parents_def below_def
          file_keys_def save_dir_def filepath_def filename_def attr_or_unknown_def write_file_def
          emit_def sanitize_def isalnum_def joinpath_def segment_parts_def open_write_def
          patient_id_of_def study_uid_of_def series_uid_of_def sop_uid_of_def)
  have s: "sanitize ''AB/12*ID'' = ''AB12ID''"
    using store_path_segments [of "''AB/12*ID''" "''A''" bare "[''data'']" ?st dotted] by blast
  have o: "patient_id_of (obj dotted) = ''AB12ID''" "study_uid_of (obj dotted) = ''1.2.840''"
      "series_uid_of (obj dotted) = ''1.2.840.5''" "filename (obj dotted) = ''1.2.840.5.1.dcm''"
      "payload (obj dotted) = 7"
    using s
    by (simp_all add: dotted_def patient_id_of_def study_uid_of_def series_uid_of_def sop_uid_of_def
          filename_def attr_or_unknown_def)
  have p: "''..'' \<notin> set (output_dir ?st)" "patient_id_of (obj dotted) \<noteq> []"
      "plain_name (study_uid_of (obj dotted))" "plain_name (series_uid_of (obj dotted))"
      "CHR ''/'' \<notin> set (filename (obj dotted))"
    unfolding o h by (simp_all add: plain_name_def)
  have e: "new_events ?st (snd (handle_store ?st dotted))
       = [MkDirs (save_dir (output_dir ?st) (obj dotted)), Saved (filepath (output_dir ?st) (obj dotted)),
          Log (StoredImage (image_count ?st + 1))]"
    using store_path_segments [of "''AB/12*ID''" "''A''" bare "[''data'']" ?st dotted] h(1) r by blast
  have t: "filepath (output_dir ?st) (obj dotted)
          = output_dir ?st @ [patient_id_of (obj dotted), study_uid_of (obj dotted),
                              series_uid_of (obj dotted), filename (obj dotted)]
        \<and> (([patient_id_of (obj dotted), study_uid_of (obj dotted), series_uid_of (obj dotted)],
             filename (obj dotted)), payload (obj dotted))
            \<in> set (files (outdir (snd (handle_store ?st dotted))))
        \<and> [patient_id_of (obj dotted), study_uid_of (obj dotted), series_uid_of (obj dotted)]
            \<in> set (dirs (outdir (snd (handle_store ?st dotted))))"
    using store_path_segments [of "''AB/12*ID''" "''A''" bare "[''data'']" ?st dotted] h(1) r p by blast
  have sd: "save_dir (output_dir ?st) (obj dotted) = [''data'', ''nm_images'', ''AB12ID'', ''1.2.840'', ''1.2.840.5'']"
    unfolding h
    by (simp add: save_dir_def o joinpath_def segment_parts_def)
  have b0: "PatientID bare = None" "obj_StudyInstanceUID bare = None" "obj_SeriesInstanceUID bare = None"
      "SOPInstanceUID bare = None"
    by (simp_all add: bare_def)
  have u: "attr_or_unknown None = ''UNKNOWN''"
    using store_path_segments [of "''AB/12*ID''" "''A''" bare "[''data'']" ?st dotted] by blast
  have bp: "patient_id_of bare = ''UNKNOWN''" "filename bare = ''UNKNOWN.dcm''"
    using store_path_segments [of "''AB/12*ID''" "''A''" bare "[''data'']" ?st dotted] b0 u
    by (simp_all add: sanitize_def isalnum_def)
  have bs: "save_dir [''data''] bare = [''data'', ''UNKNOWN'', ''UNKNOWN'', ''UNKNOWN'']"
    using store_path_segments [of "''AB/12*ID''" "''A''" bare "[''data'']" ?st dotted] b0 u bp
    by (simp add: joinpath_def segment_parts_def)
  have bf: "filepath [''data''] bare = [''data'', ''UNKNOWN'', ''UNKNOWN'', ''UNKNOWN'', ''UNKNOWN.dcm'']"
    using store_path_segments [of "''AB/12*ID''" "''A''" bare "[''data'']" ?st dotted] bp bs
    by simp
  have d: "new_events (init True False) (snd (handle_store (init True False) dotted))
        = [Log (WouldStore 1 ''AB12ID/1.2.840/1.2.840.5/1.2.840.5.1.dcm'')]"
    using store_path_segments [of "''AB/12*ID''" "''A''" bare "[''data'']" "init True False" dotted] h(2,3) o
    by simp
  show ?thesis
    using h(1,2) r e t sd bs bf d s unfolding o h(4,5) by simp
qed

text \<open>
  C4 as stated fails. With the patient identifier and the study UID both \<open>AB/12*ID\<close>,
  the patient directory is \<open>AB12ID\<close>, but the study UID is joined as it is and
  gives the two directories \<open>AB\<close> and \<open>12*ID\<close>, asterisk included; the dots of
  the series and instance UIDs survive, although sanitizing would remove them.
\<close>

theorem store_path_counterexample:
  "fst (handle_store (init False False) slashed) = Some 0
   \<and> dirs (outdir (snd (handle_store (init False False) slashed)))
       = [[''AB12ID''], [''AB12ID'', ''AB''], [''AB12ID'', ''AB'', ''12*ID''],
          [''AB12ID'', ''AB'', ''12*ID'', ''1.2.840'']]
   \<and> file_keys (outdir (snd (handle_store (init False False) slashed)))
       = [([''AB12ID'', ''AB'', ''12*ID'', ''1.2.840''], ''1.2.840.1.dcm'')]
   \<and> sanitize ''12*ID'' \<noteq> ''12*ID''
   \<and> sanitize ''1.2.840'' \<noteq> ''1.2.840''
   \<and> sanitize ''1.2.840.1'' \<noteq> ''1.2.840.1''"
  by (simp add: handle_store_def Let_def init_def slashed_def mkdir_parents_def below_def
        file_keys_def save_dir_def filepath_def filename_def attr_or_unknown_def write_file_def
        emit_def sanitize_def isalnum_def joinpath_def segment_parts_def open_write_def
        patient_id_of_def study_uid_of_def series_uid_of_def sop_uid_of_def)

subsection \<open>The counter of the store callback\<close>

text \<open>
  C9. Every object handed to the store callback raises the counter by one, whatever
  happens next: in dry-run mode the callback returns success and leaves the output
  directory alone; when the write fails it returns the failure status \<open>0xC000\<close>, no
  file is stored, and the increment stays. The image limit reads that counter: a study
  whose one series delivers objects that all fail to be written stops the study loop as
  soon as their number reaches the limit, with no file stored.
\<close>

theorem store_counts_before_write:
  "image_count (snd (handle_store st x)) = image_count st + 1
   \<and> (dry_run st \<longrightarrow> fst (handle_store st x) = Some 0 \<and> outdir (snd (handle_store st x)) = outdir st)
   \<and> (\<not> dry_run st \<and> \<not> mkdir_raises x
       \<and> fst (mkdir_parents (output_dir st) (save_dir (output_dir st) (obj x)) (outdir st))
       \<and> save_raises x \<longrightarrow>
        fst (handle_store st x) = Some 0xC000
        \<and> files (outdir (snd (handle_store st x))) = files (outdir st))
   \<and> (\<not> dry_run st \<and> \<not> use_c_get st
       \<and> fst (find_nm_series e (StudyInstanceUID s) None) = [sr]
       \<and> scp_start e (StudyInstanceUID s) (SeriesInstanceUID sr) = Started
       \<and> move_assoc e (StudyInstanceUID s) (SeriesInstanceUID sr) = Established rs
       \<and> (\<forall>x \<in> set (deliveries e (StudyInstanceUID s) (SeriesInstanceUID sr)). save_raises x)
       \<and> m \<noteq> 0
       \<and> m \<le> image_count st + int (length (deliveries e (StudyInstanceUID s) (SeriesInstanceUID sr))) \<longrightarrow>
         study_loop e (Some m) n i (s # ss) st = study_loop e (Some m) n i [s] st
         \<and> image_count (study_loop e (Some m) n i (s # ss) st)
             = image_count st + int (length (deliveries e (StudyInstanceUID s) (SeriesInstanceUID sr)))
         \<and> files (outdir (study_loop e (Some m) n i (s # ss) st)) = files (outdir st))"
proof -
  have a: "dry_run st \<Longrightarrow> fst (handle_store st x) = Some 0 \<and> outdir (snd (handle_store st x)) = outdir st"
    by (simp add: handle_store_def Let_def)
  let ?m = "mkdir_parents (output_dir st) (save_dir (output_dir st) (obj x)) (outdir st)"
  have mf: "files (snd ?m) = files (outdir st)"
    by (rule mkdir_parents_files)
  have b: "fst (handle_store st x) = Some 0xC000
        \<and> files (outdir (snd (handle_store st x))) = files (outdir st)"
    if "\<not> dry_run st" "\<not> mkdir_raises x" "fst ?m" "save_raises x"
    using that mf by (cases ?m) (auto simp: handle_store_def Let_def)
  have c: "study_loop e (Some m) n i (s # ss) st = study_loop e (Some m) n i [s] st
         \<and> image_count (study_loop e (Some m) n i (s # ss) st)
             = image_count st + int (length (deliveries e (StudyInstanceUID s) (SeriesInstanceUID sr)))
         \<and> files (outdir (study_loop e (Some m) n i (s # ss) st)) = files (outdir st)"
    if h: "\<not> dry_run st" "\<not> use_c_get st"
      "fst (find_nm_series e (StudyInstanceUID s) None) = [sr]"
      "scp_start e (StudyInstanceUID s) (SeriesInstanceUID sr) = Started"
      "move_assoc e (StudyInstanceUID s) (SeriesInstanceUID sr) = Established rs"
      "\<forall>x \<in> set (deliveries e (StudyInstanceUID s) (SeriesInstanceUID sr)). save_raises x"
      "m \<noteq> 0"
      "m \<le> image_count st + int (length (deliveries e (StudyInstanceUID s) (SeriesInstanceUID sr)))"
  proof -
    let ?u = "StudyInstanceUID s"
    let ?st1 = "emit [Log (ProcessingStudy i n ?u)] st"
    obtain fevs where f: "find_nm_series e ?u None = ([sr], fevs)"
      using h(3) by (cases "find_nm_series e ?u None") auto
    let ?st2 = "emit [Log (FoundSeries (length [sr]))] (emit fevs (emit [Log (RetrievingStudy ?u)] ?st1))"
    have rs: "snd (retrieve_study e ?st1 ?u) = snd (retrieve_with_move e ?st2 ?u (SeriesInstanceUID sr))"
      using h(1,2) f by (simp add: retrieve_study_def Let_def split: prod.splits)
    have cnt: "image_count (snd (retrieve_study e ?st1 ?u))
                 = image_count st + int (length (deliveries e ?u (SeriesInstanceUID sr)))"
      using retrieve_with_move_count [OF h(4) h(5), of ?st2] rs by simp
    have fl: "files (outdir (snd (retrieve_study e ?st1 ?u))) = files (outdir st)"
      using h(6) rs
      by (simp add: retrieve_with_move_started [OF h(4) h(5)] store_all_files)
    show ?thesis
      using cnt fl h(7,8) by (simp add: Let_def int_truthy_def)
  qed
  show ?thesis
    using a b c handle_store_count [of st x] by blast
qed

theorem store_counts_before_write_witness:
  "image_count (snd (handle_store (init True False) (unwritable ''1.2.3.1''))) = 1
   \<and> fst (handle_store (init True False) (unwritable ''1.2.3.1'')) = Some 0
   \<and> fst (handle_store (init False False) (unwritable ''1.2.3.1'')) = Some 0xC000
   \<and> image_count (snd (handle_store (init False False) (unwritable ''1.2.3.1''))) = 1
   \<and> study_loop failing_store_env (Some 2) 2 1 [nm_study ''A'', nm_study ''B''] (init False False)
       = study_loop failing_store_env (Some 2) 2 1 [nm_study ''A''] (init False False)
   \<and> image_count (study_loop failing_store_env (Some 2) 2 1 [nm_study ''A'', nm_study ''B''] (init False False)) = 2
   \<and> files (outdir (study_loop failing_store_env (Some 2) 2 1 [nm_study ''A'', nm_study ''B''] (init False False))) = []"
proof -
  let ?x = "unwritable ''1.2.3.1''"
  have d: "dry_run (init True False)" "\<not> dry_run (init False False)" "\<not> use_c_get (init False False)"
    by (simp_all add: init_def)
  have m: "\<not> mkdir_raises ?x" "save_raises ?x"
      "fst (mkdir_parents (output_dir (init False False)) (save_dir (output_dir (init False False)) (obj ?x))
              (outdir (init False False)))"
    by (simp_all add: unwritable_def init_def mkdir_parents_def below_def file_keys_def save_dir_def
          joinpath_def segment_parts_def sanitize_def isalnum_def attr_or_unknown_def
          patient_id_of_def study_uid_of_def series_uid_of_def)
  have c0: "image_count (init True False) = 0" "image_count (init False False) = 0"
      "files (outdir (init False False)) = []"
    by (simp_all add: init_def)
  have u: "StudyInstanceUID (nm_study ''A'') = ''A''" "SeriesInstanceUID series_1 = ''1.2.3''"
    by (simp_all add: nm_study_def series_1_def)
  have f: "fst (find_nm_series failing_store_env ''A'' None) = [series_1]"
    by (simp add: find_nm_series_def failing_store_env_def idle_env_def
          pending_def is_pending_def int_truthy_def)
  have s: "scp_start failing_store_env ''A'' ''1.2.3'' = Started"
      "move_assoc failing_store_env ''A'' ''1.2.3'' = Established [Response (Some 0) None]"
      "deliveries failing_store_env ''A'' ''1.2.3'' = [unwritable ''1.2.3.1'', unwritable ''1.2.3.2'']"
    by (simp_all add: failing_store_env_def)
  have sr: "\<forall>x \<in> set (deliveries failing_store_env ''A'' ''1.2.3''). save_raises x"
    by (simp add: s unwritable_def)
  have t1: "image_count (snd (handle_store (init True False) ?x)) = 1
      \<and> fst (handle_store (init True False) ?x) = Some 0"
    using store_counts_before_write [of "init True False" ?x] d c0 by simp
  have t2: "fst (handle_store (init False False) ?x) = Some 0xC000
      \<and> image_count (snd (handle_store (init False False) ?x)) = 1"
    using store_counts_before_write [of "init False False" ?x] d m c0 by simp
  let ?st = "init False False"
  let ?s = "nm_study ''A''"
  have g: "\<not> dry_run ?st \<and> \<not> use_c_get ?st
       \<and> fst (find_nm_series failing_store_env (StudyInstanceUID ?s) None) = [series_1]
       \<and> scp_start failing_store_env (StudyInstanceUID ?s) (SeriesInstanceUID series_1) = Started
       \<and> move_assoc failing_store_env (StudyInstanceUID ?s) (SeriesInstanceUID series_1)
           = Established [Response (Some 0) None]
       \<and> (\<forall>x \<in> set (deliveries failing_store_env (StudyInstanceUID ?s) (SeriesInstanceUID series_1)).
             save_raises x)
       \<and> (2::int) \<noteq> 0
       \<and> 2 \<le> image_count ?st
               + int (length (deliveries failing_store_env (StudyInstanceUID ?s) (SeriesInstanceUID series_1)))"
    using d u f s sr c0 by simp
  have t3': "study_loop failing_store_env (Some 2) 2 1 (?s # [nm_study ''B'']) ?st
         = study_loop failing_store_env (Some 2) 2 1 [?s] ?st
       \<and> image_count (study_loop failing_store_env (Some 2) 2 1 (?s # [nm_study ''B'']) ?st)
           = image_count ?st
             + int (length (deliveries failing_store_env (StudyInstanceUID ?s) (SeriesInstanceUID series_1)))
       \<and> files (outdir (study_loop failing_store_env (Some 2) 2 1 (?s # [nm_study ''B'']) ?st))
           = files (outdir ?st)"
    using store_counts_before_write
            [of ?st ?x failing_store_env ?s series_1
                "[Response (Some 0) None]" 2 2 1 "[nm_study ''B'']"] g
    by blast
  have e1: "study_loop failing_store_env (Some 2) 2 1 [nm_study ''A'', nm_study ''B''] (init False False)
       = study_loop failing_store_env (Some 2) 2 1 [nm_study ''A''] (init False False)"
    using t3' by blast
  have e2: "image_count (study_loop failing_store_env (Some 2) 2 1 [nm_study ''A'', nm_study ''B''] (init False False)) = 2"
    using conjunct1 [OF conjunct2 [OF t3']] u s c0 by (simp del: study_loop.simps)
  have e3: "files (outdir (study_loop failing_store_env (Some 2) 2 1 [nm_study ''A'', nm_study ''B''] (init False False))) = []"
    using conjunct2 [OF conjunct2 [OF t3']] c0 by (simp del: study_loop.simps)
  note t3 = e1 e2 e3
  show ?thesis using t1 t2 t3 by blast
qed

subsection \<open>The dry run\<close>



subsection \<open>The extension-repair pass\<close>

text \<open>
  C8. The repair pass is idempotent: for any set of renames that fail, running the pass
  on its own result changes nothing and renames nothing. When no rename fails (none
  fails for an outside reason and no file that lacks the suffix lies beside a directory
  of its new name), the file names after one pass are the old ones with \<open>.dcm\<close>
  appended to every name that lacked it, so every name then ends in \<open>.dcm\<close>; a file
  \<open>1.2.840\<close> becomes \<open>1.2.840.dcm\<close>.
\<close>

theorem repair_idempotent:
  "fst (repair_pass F (fst (repair_pass F t))) = fst (repair_pass F t)
   \<and> fst (snd (repair_pass F (fst (repair_pass F t)))) = 0
   \<and> ((\<forall>k. \<not> F k)
        \<and> (\<forall>k \<in> set (file_keys t). \<not> endswith (snd k) ''.dcm'' \<longrightarrow>
              fst k @ [snd k @ ''.dcm''] \<notin> set (dirs t)) \<longrightarrow>
        set (file_keys (fst (repair_pass F t)))
          = (\<lambda>k. if endswith (snd k) ''.dcm'' then k else (fst k, snd k @ ''.dcm'')) ` set (file_keys t)
        \<and> (\<forall>k \<in> set (file_keys (fst (repair_pass F t))). endswith (snd k) ''.dcm''))"
proof -
  have ks: "set (file_keys (fst (repair_pass F t)))
          = (\<lambda>k. if endswith (snd k) ''.dcm'' then k else (fst k, snd k @ ''.dcm'')) ` set (file_keys t)"
    if h: "\<forall>k. \<not> F k" "\<forall>k \<in> set (file_keys t). \<not> endswith (snd k) ''.dcm'' \<longrightarrow>
              fst k @ [snd k @ ''.dcm''] \<notin> set (dirs t)"
  proof -
    have "set (file_keys (fst (repair_pass F t)))
            = (\<lambda>k. if k \<in> set (file_keys t) \<and> \<not> endswith (snd k) ''.dcm'' then dcm_name k else k)
                ` set (file_keys t)"
      unfolding repair_pass_def by (rule repair_loop_keys [OF h])
    also have "\<dots> = (\<lambda>k. if endswith (snd k) ''.dcm'' then k else (fst k, snd k @ ''.dcm''))
                ` set (file_keys t)"
      by (intro image_cong) (auto simp: dcm_name_def)
    finally show ?thesis .
  qed
  have all: "\<forall>k \<in> set (file_keys (fst (repair_pass F t))). endswith (snd k) ''.dcm''"
    if h: "\<forall>k. \<not> F k" "\<forall>k \<in> set (file_keys t). \<not> endswith (snd k) ''.dcm'' \<longrightarrow>
              fst k @ [snd k @ ''.dcm''] \<notin> set (dirs t)"
    unfolding ks [OF h] by auto
  show ?thesis
    using repair_pass_twice [of F t] ks all by blast
qed

theorem repair_idempotent_witness:
  "fst (repair_pass (\<lambda>k. False) mixed_tree)
     = \<lparr>dirs = [''P1''] # [], files = [(([], ''1.2.840.dcm''), 1), (([''P1''], ''x.dcm''), 2)]\<rparr>
   \<and> fst (repair_pass (\<lambda>k. False) (fst (repair_pass (\<lambda>k. False) mixed_tree)))
       = fst (repair_pass (\<lambda>k. False) mixed_tree)
   \<and> set (file_keys (fst (repair_pass (\<lambda>k. False) mixed_tree)))
       = {([], ''1.2.840.dcm''), ([''P1''], ''x.dcm'')}
   \<and> fst (repair_pass (\<lambda>k. False) blocked_tree) = blocked_tree
   \<and> fst (repair_pass (\<lambda>k. False) (fst (repair_pass (\<lambda>k. False) blocked_tree)))
       = fst (repair_pass (\<lambda>k. False) blocked_tree)"
proof -
  have e: "endswith ''x.dcm'' ''.dcm''" "\<not> endswith ''1.2.840'' ''.dcm''" "\<not> endswith ''a'' ''.dcm''"
    by (simp_all add: endswith_def)
  have h: "(\<forall>k. \<not> (\<lambda>k. False) k)
        \<and> (\<forall>k \<in> set (file_keys mixed_tree). \<not> endswith (snd k) ''.dcm'' \<longrightarrow>
              fst k @ [snd k @ ''.dcm''] \<notin> set (dirs mixed_tree))"
    by (simp add: mixed_tree_def file_keys_def)
  have r: "fst (repair_pass (\<lambda>k. False) mixed_tree)
     = \<lparr>dirs = [''P1''] # [], files = [(([], ''1.2.840.dcm''), 1), (([''P1''], ''x.dcm''), 2)]\<rparr>"
    by (simp add: repair_pass_def mixed_tree_def file_keys_def e rename_file_def dcm_name_def)
  have b: "fst (repair_pass (\<lambda>k. False) blocked_tree) = blocked_tree"
    by (simp add: repair_pass_def blocked_tree_def file_keys_def e rename_file_def)
  have k: "set (file_keys (fst (repair_pass (\<lambda>k. False) mixed_tree)))
       = {([], ''1.2.840.dcm''), ([''P1''], ''x.dcm'')}"
    using repair_idempotent [of "\<lambda>k. False" mixed_tree] h
    by (simp add: mixed_tree_def file_keys_def e)
  show ?thesis
    using repair_idempotent [of "\<lambda>k. False" mixed_tree]
      repair_idempotent [of "\<lambda>k. False" blocked_tree] r b k
    by simp
qed

subsection \<open>The counter of the external-tool strategy\<close>

text \<open>
  C10. A successful invocation of the external tool raises the counter by the integer
  read from the output's \<open>Completed Suboperations\<close> lines when that is positive, and
  by nothing otherwise; the output directory is the one the tool and the repair pass
  leave. When no such line has an integer after its first colon, the count read is 0:
  the call succeeds, files may have been stored, and the counter stays. A run in which
  no invocation yields a positive count, started below the image limit, goes exactly as
  the run without a limit: the limit test never stops it.
\<close>

theorem get_counts_parsed_only:
  "(getscu_found e \<and> getscu_run e u s = Completed 0 out stored \<longrightarrow>
      fst (retrieve_with_get e st u s)
      \<and> image_count (snd (retrieve_with_get e st u s))
          = image_count st + (if 0 < parse_completed out then parse_completed out else 0)
      \<and> outdir (snd (retrieve_with_get e st u s))
          = fst (repair_pass (rename_fails e) (tool_stores stored (outdir st))))
   \<and> ((\<forall>line \<in> set (split_on (CHR 0x0A) out).
          contains_str ''Completed Suboperations'' line \<longrightarrow>
          (case split_on (CHR '':'') line of a # p # r \<Rightarrow> py_int (strip p) = None | _ \<Rightarrow> True)) \<longrightarrow>
        parse_completed out = 0)
   \<and> (use_c_get st
        \<and> (\<forall>u s rc out stored. getscu_run e u s = Completed rc out stored \<longrightarrow> parse_completed out \<le> 0)
        \<and> image_count st < m \<longrightarrow>
          study_loop e (Some m) n i ss st = study_loop e None n i ss st
          \<and> image_count (study_loop e (Some m) n i ss st) = image_count st)"
  using retrieve_with_get_completed [of e u s out stored st]
    parse_completed_unparsed [of out]
    study_loop_get_no_limit [of e st m n i ss]
  by blast

theorem get_counts_parsed_only_witness:
  "fst (retrieve_with_get counting_tool_env (init False True) ''A'' ''1.2.3'')
   \<and> image_count (snd (retrieve_with_get counting_tool_env (init False True) ''A'' ''1.2.3'')) = 12
   \<and> parse_completed (''I: Received Final Get Response'' @ [CHR 0x0A] @ ''D: Completed Suboperations : 12'') = 0
   \<and> fst (retrieve_with_get prefixed_tool_env (init False True) ''A'' ''1.2.3'')
   \<and> image_count (snd (retrieve_with_get prefixed_tool_env (init False True) ''A'' ''1.2.3'')) = 0
   \<and> outdir (snd (retrieve_with_get prefixed_tool_env (init False True) ''A'' ''1.2.3''))
       = \<lparr>dirs = [], files = [(([], ''NM.1.2.3.1.dcm''), 5)]\<rparr>
   \<and> study_loop prefixed_tool_env (Some 1) 2 1 [nm_study ''A'', nm_study ''B''] (init False True)
       = study_loop prefixed_tool_env None 2 1 [nm_study ''A'', nm_study ''B''] (init False True)
   \<and> image_count (study_loop prefixed_tool_env (Some 1) 2 1 [nm_study ''A'', nm_study ''B''] (init False True)) = 0"
proof -
  let ?st = "init False True"
  let ?good = "''I: Received Final Get Response'' @ [CHR 0x0A] @ ''Completed Suboperations : 12''"
  let ?bad = "''I: Received Final Get Response'' @ [CHR 0x0A] @ ''D: Completed Suboperations : 12''"
  have st: "use_c_get ?st" "image_count ?st = 0" "outdir ?st = \<lparr>dirs = [], files = []\<rparr>"
    by (simp_all add: init_def)
  have c: "getscu_found counting_tool_env"
      "getscu_run counting_tool_env ''A'' ''1.2.3'' = Completed 0 ?good [(''NM.1.2.3.1'', 5)]"
    by (simp_all add: counting_tool_env_def)
  have p: "getscu_found prefixed_tool_env"
      "getscu_run prefixed_tool_env ''A'' ''1.2.3'' = Completed 0 ?bad [(''NM.1.2.3.1'', 5)]"
      "rename_fails prefixed_tool_env = (\<lambda>k. False)"
    by (simp_all add: prefixed_tool_env_def idle_env_def)
  have pg: "parse_completed ?good = 12"
    by (simp add: parse_completed_def completed_of_line_def strip_def isspace_def py_int_def
          isdigit_def digit_val_def)
  have lines: "split_on (CHR 0x0A) ?bad
                 = [''I: Received Final Get Response'', ''D: Completed Suboperations : 12'']"
    by simp
  have unparsed: "\<forall>line \<in> set (split_on (CHR 0x0A) ?bad).
          contains_str ''Completed Suboperations'' line \<longrightarrow>
          (case split_on (CHR '':'') line of a # p # r \<Rightarrow> py_int (strip p) = None | _ \<Rightarrow> True)"
    unfolding lines
    by (simp add: strip_def isspace_def py_int_def isdigit_def)
  have pb: "parse_completed ?bad = 0"
    using get_counts_parsed_only [of prefixed_tool_env "''A''" "''1.2.3''" ?bad "[(''NM.1.2.3.1'', 5)]" ?st 1 2 1 "[]"]
      unparsed by blast
  have all: "\<forall>u s rc out stored. getscu_run prefixed_tool_env u s = Completed rc out stored \<longrightarrow>
               parse_completed out \<le> 0"
    using pb by (simp add: prefixed_tool_env_def)
  have tree: "fst (repair_pass (\<lambda>k. False) (tool_stores [(''NM.1.2.3.1'', 5)] \<lparr>dirs = [], files = []\<rparr>))
                = \<lparr>dirs = [], files = [(([], ''NM.1.2.3.1.dcm''), 5)]\<rparr>"
    by (simp add: repair_pass_def tool_stores_def write_file_def file_keys_def endswith_def
          rename_file_def dcm_name_def)
  have g1: "fst (retrieve_with_get counting_tool_env ?st ''A'' ''1.2.3'')
      \<and> image_count (snd (retrieve_with_get counting_tool_env ?st ''A'' ''1.2.3'')) = 12"
    using get_counts_parsed_only [of counting_tool_env "''A''" "''1.2.3''" ?good "[(''NM.1.2.3.1'', 5)]" ?st 1 2 1 "[]"]
      c pg st by simp
  have g2: "fst (retrieve_with_get prefixed_tool_env ?st ''A'' ''1.2.3'')
      \<and> image_count (snd (retrieve_with_get prefixed_tool_env ?st ''A'' ''1.2.3'')) = 0
      \<and> outdir (snd (retrieve_with_get prefixed_tool_env ?st ''A'' ''1.2.3''))
           = \<lparr>dirs = [], files = [(([], ''NM.1.2.3.1.dcm''), 5)]\<rparr>"
    using get_counts_parsed_only [of prefixed_tool_env "''A''" "''1.2.3''" ?bad "[(''NM.1.2.3.1'', 5)]" ?st 1 2 1 "[]"]
      p pb st tree by simp
  have lt: "image_count ?st < 1" using st by simp
  have g3: "study_loop prefixed_tool_env (Some 1) 2 1 [nm_study ''A'', nm_study ''B''] ?st
       = study_loop prefixed_tool_env None 2 1 [nm_study ''A'', nm_study ''B''] ?st
      \<and> image_count (study_loop prefixed_tool_env (Some 1) 2 1 [nm_study ''A'', nm_study ''B''] ?st)
          = image_count ?st"
    using get_counts_parsed_only [of prefixed_tool_env "''A''" "''1.2.3''" ?bad "[(''NM.1.2.3.1'', 5)]" ?st 1 2 1
            "[nm_study ''A'', nm_study ''B'']"]
      st(1) all lt by blast
  have g3a: "study_loop prefixed_tool_env (Some 1) 2 1 [nm_study ''A'', nm_study ''B''] ?st
       = study_loop prefixed_tool_env None 2 1 [nm_study ''A'', nm_study ''B''] ?st"
    using g3 by (rule conjunct1)
  have g3b: "image_count (study_loop prefixed_tool_env (Some 1) 2 1 [nm_study ''A'', nm_study ''B''] ?st) = 0"
    using conjunct2 [OF g3] st(2) by (rule trans)
  show ?thesis
    using g1 pb g2 g3a g3b by blast
qed

end
